theory Spec2Isabelle
  imports Main "HOL-Library.Word"
begin

unbundle bit_operations_syntax

section \<open>JavaScript values and errors\<close>

text \<open>
  A Buffer is a list of bytes, and so is the Array in which the cluster may deliver the
  bytes of a frame; the two are different values. A JavaScript string is a list of UTF-16
  code units. Numbers are modelled as integers: every number the modelled code produces or
  accepts is an integer (\<open>Number.isInteger\<close> guards the numeric write methods).
\<close>

type_synonym byte = "8 word"
type_synonym js_string = "16 word list"

datatype js_value =
    JUndefined
  | JBool bool
  | JNum int
  | JStr js_string
  | JBuf "byte list"
  | JArr "byte list"

text \<open>Every \<open>throw\<close> of the modelled functions is a constructor of this type.\<close>

datatype js_error =
    MissingData
  | DataNotArrayOrBuffer
  | UnsupportedDatatype int
  | NoWriteMethod int
  | WriteBoolExpectedBoolean
  | InvalidUint32
  | InvalidEnum
  | DataMustBeBuffer
  | ClusterNotOnEndpoint
  | TransportError nat
  | UnknownType string
  | LastErrorUndefined
  | ValueOutOfRange
  | EndpointNotAvailable
  | TuyaClusterNotAvailable

section \<open>DP codec: TuyaHelpers.getDataValue\<close>

text \<open>
  \<open>(acc << 8) | byte\<close>: both operators of JavaScript work on 32-bit two's complement
  integers, so the accumulator is a 32-bit word and the number returned is its signed
  reading.
\<close>

definition shift_or :: "32 word \<Rightarrow> byte \<Rightarrow> 32 word" where
  "shift_or acc b = push_bit 8 acc OR ucast b"

definition convertMultiByteNumberPayloadToSingleDecimalNumber :: "byte list \<Rightarrow> int" where
  "convertMultiByteNumberPayloadToSingleDecimalNumber chunks =
     (if chunks = [] then 0 else sint (foldl shift_or 0 chunks))"

text \<open>
  The \<open>data\<close> field of a datapoint value: absent, present but neither an Array nor
  a Buffer, an Array of bytes, or a Buffer.
\<close>

datatype dp_data = DataUndefined | DataOther | DataArray "byte list" | DataBuffer "byte list"

text \<open>The elements of array-like data, and the data as the value it is.\<close>

fun bytes_of :: "dp_data \<Rightarrow> byte list" where
  "bytes_of (DataArray d) = d"
| "bytes_of (DataBuffer d) = d"
| "bytes_of _ = []"

fun data_itself :: "dp_data \<Rightarrow> js_value" where
  "data_itself (DataArray d) = JArr d"
| "data_itself (DataBuffer d) = JBuf d"
| "data_itself _ = JUndefined"

record dp_value =
  datatype_id :: int
  data :: dp_data

definition String_fromCharCode :: "byte list \<Rightarrow> js_string" where
  "String_fromCharCode bs = map ucast bs"

fun first_is_one :: "byte list \<Rightarrow> bool" where
  "first_is_one [] = False"
| "first_is_one (b # bs) = (b = 1)"

fun first_byte :: "byte list \<Rightarrow> js_value" where
  "first_byte [] = JUndefined"
| "first_byte (b # bs) = JNum (uint b)"

text \<open>
  The two guards and the \<open>switch\<close> on the datatype. For raw data the function
  returns \<open>dpValue.data\<close> itself, an Array or a Buffer as it came.
\<close>

definition getDataValue :: "dp_value option \<Rightarrow> js_error + js_value" where
  "getDataValue dpValue =
     (case dpValue of
        None \<Rightarrow> Inl MissingData
      | Some v \<Rightarrow>
          (if data v = DataUndefined then Inl MissingData
           else if data v = DataOther then Inl DataNotArrayOrBuffer
           else if datatype_id v = 0 then Inr (data_itself (data v))
           else if datatype_id v = 1 then Inr (JBool (first_is_one (bytes_of (data v))))
           else if datatype_id v = 2 then
             Inr (JNum (convertMultiByteNumberPayloadToSingleDecimalNumber (bytes_of (data v))))
           else if datatype_id v = 3 then Inr (JStr (String_fromCharCode (bytes_of (data v))))
           else if datatype_id v = 4 then Inr (first_byte (bytes_of (data v)))
           else if datatype_id v = 5 then
             Inr (JNum (convertMultiByteNumberPayloadToSingleDecimalNumber (bytes_of (data v))))
           else Inl (UnsupportedDatatype (datatype_id v))))"

text \<open>
  \<open>decode(datatype, data)\<close> of the specification: the call on a well-formed object,
  with the bytes in a Buffer (\<open>decode\<close>) or in an Array (\<open>decode_array\<close>).
\<close>

definition decode :: "int \<Rightarrow> byte list \<Rightarrow> js_error + js_value" where
  "decode dt d = getDataValue (Some \<lparr>datatype_id = dt, data = DataBuffer d\<rparr>)"

definition decode_array :: "int \<Rightarrow> byte list \<Rightarrow> js_error + js_value" where
  "decode_array dt d = getDataValue (Some \<lparr>datatype_id = dt, data = DataArray d\<rparr>)"

subsection \<open>The arithmetic meaning of the accumulation\<close>

text \<open>The number whose base-256 digits, most significant first, are the bytes.\<close>

definition big_endian :: "byte list \<Rightarrow> int" where
  "big_endian d = foldl (\<lambda>acc b. acc * 256 + uint b) 0 d"

text \<open>ECMAScript's ToInt32: reduction modulo \<open>2^32\<close> into \<open>[-2^31, 2^31)\<close>.\<close>

definition ToInt32 :: "int \<Rightarrow> int" where
  "ToInt32 x = (x + 2147483648) mod 4294967296 - 2147483648"

section \<open>DP codec: the buffers built by the write methods\<close>

text \<open>
  Each write method of TuyaSpecificClusterDevice validates its argument, builds a Buffer
  and hands it to \<open>_sendTuyaDatapoint\<close> with a fixed datatype number. The functions
  below are the validation and the buffer construction.
\<close>

definition writeBool_payload :: "js_value \<Rightarrow> js_error + byte list" where
  "writeBool_payload v =
     (case v of JBool b \<Rightarrow> Inr [if b then 1 else 0] | _ \<Rightarrow> Inl WriteBoolExpectedBoolean)"

text \<open>\<open>Buffer.writeUInt32BE\<close> on a value already known to be in range.\<close>

definition writeUInt32BE :: "int \<Rightarrow> byte list" where
  "writeUInt32BE v =
     [word_of_int (v div 16777216), word_of_int (v div 65536),
      word_of_int (v div 256), word_of_int v]"

definition writeData32_payload :: "js_value \<Rightarrow> js_error + byte list" where
  "writeData32_payload v =
     (case v of
        JNum n \<Rightarrow> (if n < 0 \<or> n > 4294967295 then Inl InvalidUint32 else Inr (writeUInt32BE n))
      | _ \<Rightarrow> Inl InvalidUint32)"

text \<open>
  \<open>String(value)\<close> is the identity on strings; the conversion of the other values is
  the host language's and is taken as the parameter \<open>conv\<close>. In the examples, where
  only strings are converted, \<open>no_conversion\<close> stands for it.
\<close>

definition js_String :: "(js_value \<Rightarrow> js_string) \<Rightarrow> js_value \<Rightarrow> js_string" where
  "js_String conv v = (case v of JStr s \<Rightarrow> s | _ \<Rightarrow> conv v)"

definition no_conversion :: "js_value \<Rightarrow> js_string" where
  "no_conversion v = []"

text \<open>\<open>Buffer.from(s, 'latin1')\<close> keeps the low byte of every code unit.\<close>

definition latin1 :: "js_string \<Rightarrow> byte list" where
  "latin1 s = map ucast s"

definition writeString_payload :: "(js_value \<Rightarrow> js_string) \<Rightarrow> js_value \<Rightarrow> js_error + byte list" where
  "writeString_payload conv v = Inr (latin1 (js_String conv v))"

definition writeEnum_payload :: "js_value \<Rightarrow> js_error + byte list" where
  "writeEnum_payload v =
     (case v of
        JNum n \<Rightarrow> (if n < 0 \<or> n > 255 then Inl InvalidEnum else Inr [word_of_int n])
      | _ \<Rightarrow> Inl InvalidEnum)"

definition writeRaw_payload :: "js_value \<Rightarrow> js_error + byte list" where
  "writeRaw_payload v = (case v of JBuf d \<Rightarrow> Inr d | _ \<Rightarrow> Inl DataMustBeBuffer)"



section \<open>Command dispatcher: TuyaSpecificClusterDevice\<close>

text \<open>
  The calls the device makes on the host and on the cluster are recorded, in order, in a
  trace. \<open>Datapoint\<close> is a call of \<open>clusters.tuya.datapoint\<close> with its arguments
  (status, transid, dp, datatype, length, data); \<open>ClusterCheckFailed\<close> marks an attempt
  that threw before transmitting because the tuya cluster was not on the endpoint;
  \<open>SetTimeout\<close> is an awaited \<open>homey.setTimeout\<close> with its delay in milliseconds;
  \<open>SetTime\<close> is a call of \<open>cluster.setTime\<close> with its payload. The log lines the
  device writes are not part of the trace.
\<close>

datatype event =
    Datapoint nat nat nat int nat "byte list"
  | ClusterCheckFailed
  | SetTimeout int
  | SetTime "byte list"

text \<open>
  What the outside world answers to one attempt of \<open>_sendTuyaDatapoint\<close>: the cluster
  is missing, the transmit promise rejects (with an error identified by a number), or it
  resolves. The environment \<open>env\<close> gives the answer to the \<open>n\<close>-th attempt the device
  makes; the device counts its attempts in \<open>attempts_made\<close>.
\<close>

datatype attempt = ClusterMissing | Rejects nat | Resolves

record tuya_device =
  transactionID_counter :: nat
  attempts_made :: nat
  trace :: "event list"
  available :: bool

text \<open>A scripted environment: the listed answers first, then \<open>dflt\<close> for ever.\<close>

definition scripted :: "attempt list \<Rightarrow> attempt \<Rightarrow> nat \<Rightarrow> attempt" where
  "scripted answers dflt n = (if n < length answers then answers ! n else dflt)"

text \<open>
  The getter \<open>transactionID\<close> returns \<open>_transactionID++ % 256\<close>; the transmit call
  reads it once per transmitted frame.
\<close>

definition transmit ::
  "nat \<Rightarrow> int \<Rightarrow> byte list \<Rightarrow> 'a tuya_device_scheme \<Rightarrow> 'a tuya_device_scheme" where
  "transmit dp dt d s =
     s\<lparr>trace := trace s @
            [Datapoint 0 (transactionID_counter s mod 256) dp dt (length d) d],
       transactionID_counter := Suc (transactionID_counter s),
       attempts_made := Suc (attempts_made s)\<rparr>"

definition cluster_check_fails :: "'a tuya_device_scheme \<Rightarrow> 'a tuya_device_scheme" where
  "cluster_check_fails s =
     s\<lparr>trace := trace s @ [ClusterCheckFailed], attempts_made := Suc (attempts_made s)\<rparr>"

definition sleep :: "int \<Rightarrow> 'a tuya_device_scheme \<Rightarrow> 'a tuya_device_scheme" where
  "sleep ms s = s\<lparr>trace := trace s @ [SetTimeout ms]\<rparr>"

text \<open>The \<open>catch\<close> block: back off unless this was the last attempt.\<close>

definition backoff ::
  "int \<Rightarrow> int \<Rightarrow> nat \<Rightarrow> 'a tuya_device_scheme \<Rightarrow> 'a tuya_device_scheme" where
  "backoff maxRetries baseDelay attempt s =
     (if int attempt < maxRetries then sleep (baseDelay * 2 ^ attempt) s else s)"

text \<open>
  The \<open>for\<close> loop of \<open>_sendTuyaDatapoint\<close> from iteration \<open>attempt\<close> on, with the
  current \<open>lastError\<close>. After the loop the code reads \<open>lastError.message\<close>, which
  itself throws when no attempt was made (\<open>maxRetries < 0\<close>).
\<close>

function sendTuyaDatapoint_loop ::
  "(nat \<Rightarrow> attempt) \<Rightarrow> nat \<Rightarrow> int \<Rightarrow> byte list \<Rightarrow> int \<Rightarrow> int \<Rightarrow> nat \<Rightarrow> js_error option \<Rightarrow>
     'a tuya_device_scheme \<Rightarrow> (js_error + unit) \<times> 'a tuya_device_scheme" where
  "sendTuyaDatapoint_loop env dp dt d maxRetries baseDelay attempt lastError s =
     (if int attempt \<le> maxRetries then
        (case env (attempts_made s) of
           Resolves \<Rightarrow> (Inr (), transmit dp dt d s)
         | Rejects e \<Rightarrow>
             sendTuyaDatapoint_loop env dp dt d maxRetries baseDelay (Suc attempt)
               (Some (TransportError e)) (backoff maxRetries baseDelay attempt (transmit dp dt d s))
         | ClusterMissing \<Rightarrow>
             sendTuyaDatapoint_loop env dp dt d maxRetries baseDelay (Suc attempt)
               (Some ClusterNotOnEndpoint) (backoff maxRetries baseDelay attempt (cluster_check_fails s)))
      else
        (case lastError of None \<Rightarrow> (Inl LastErrorUndefined, s) | Some e \<Rightarrow> (Inl e, s)))"
  by pat_completeness auto
termination
  by (relation "measure (\<lambda>(env, dp, dt, d, maxRetries, baseDelay, attempt, lastError, s).
        nat (maxRetries + 1 - int attempt))") auto

declare sendTuyaDatapoint_loop.simps [simp del]

definition sendTuyaDatapoint ::
  "(nat \<Rightarrow> attempt) \<Rightarrow> nat \<Rightarrow> int \<Rightarrow> byte list \<Rightarrow> int \<Rightarrow> int \<Rightarrow>
     'a tuya_device_scheme \<Rightarrow> (js_error + unit) \<times> 'a tuya_device_scheme" where
  "sendTuyaDatapoint env dp dt d maxRetries baseDelay s =
     sendTuyaDatapoint_loop env dp dt d maxRetries baseDelay 0 None s"

text \<open>The write methods: validate, build the buffer, send with the method's datatype.\<close>

definition send_payload ::
  "(nat \<Rightarrow> attempt) \<Rightarrow> nat \<Rightarrow> int \<Rightarrow> js_error + byte list \<Rightarrow> int \<Rightarrow> int \<Rightarrow>
     'a tuya_device_scheme \<Rightarrow> (js_error + unit) \<times> 'a tuya_device_scheme" where
  "send_payload env dp dt payload maxRetries baseDelay s =
     (case payload of
        Inl e \<Rightarrow> (Inl e, s)
      | Inr buf \<Rightarrow> sendTuyaDatapoint env dp dt buf maxRetries baseDelay s)"

definition writeBool ::
  "(nat \<Rightarrow> attempt) \<Rightarrow> nat \<Rightarrow> js_value \<Rightarrow> int \<Rightarrow> int \<Rightarrow>
     'a tuya_device_scheme \<Rightarrow> (js_error + unit) \<times> 'a tuya_device_scheme" where
  "writeBool env dp v maxRetries baseDelay s =
     send_payload env dp 1 (writeBool_payload v) maxRetries baseDelay s"

definition writeData32 ::
  "(nat \<Rightarrow> attempt) \<Rightarrow> nat \<Rightarrow> js_value \<Rightarrow> int \<Rightarrow> int \<Rightarrow>
     'a tuya_device_scheme \<Rightarrow> (js_error + unit) \<times> 'a tuya_device_scheme" where
  "writeData32 env dp v maxRetries baseDelay s =
     send_payload env dp 2 (writeData32_payload v) maxRetries baseDelay s"

definition writeString ::
  "(js_value \<Rightarrow> js_string) \<Rightarrow> (nat \<Rightarrow> attempt) \<Rightarrow> nat \<Rightarrow> js_value \<Rightarrow> int \<Rightarrow> int \<Rightarrow>
     'a tuya_device_scheme \<Rightarrow> (js_error + unit) \<times> 'a tuya_device_scheme" where
  "writeString conv env dp v maxRetries baseDelay s =
     send_payload env dp 3 (writeString_payload conv v) maxRetries baseDelay s"

definition writeEnum ::
  "(nat \<Rightarrow> attempt) \<Rightarrow> nat \<Rightarrow> js_value \<Rightarrow> int \<Rightarrow> int \<Rightarrow>
     'a tuya_device_scheme \<Rightarrow> (js_error + unit) \<times> 'a tuya_device_scheme" where
  "writeEnum env dp v maxRetries baseDelay s =
     send_payload env dp 4 (writeEnum_payload v) maxRetries baseDelay s"

definition writeRaw ::
  "(nat \<Rightarrow> attempt) \<Rightarrow> nat \<Rightarrow> js_value \<Rightarrow> int \<Rightarrow> int \<Rightarrow>
     'a tuya_device_scheme \<Rightarrow> (js_error + unit) \<times> 'a tuya_device_scheme" where
  "writeRaw env dp v maxRetries baseDelay s =
     send_payload env dp 0 (writeRaw_payload v) maxRetries baseDelay s"

subsection \<open>Reading a trace\<close>

text \<open>
  The shape of a trace: which events are attempts of the transmit loop and which are
  waits, with their delay.
\<close>

datatype step = Attempt | Wait int | Other

fun step_of :: "event \<Rightarrow> step" where
  "step_of (Datapoint st t dp dt l d) = Attempt"
| "step_of ClusterCheckFailed = Attempt"
| "step_of (SetTimeout ms) = Wait ms"
| "step_of (SetTime p) = Other"

fun is_Datapoint :: "event \<Rightarrow> bool" where
  "is_Datapoint (Datapoint st t dp dt l d) = True"
| "is_Datapoint _ = False"

text \<open>
  The schedule the specification describes for a write whose attempts \<open>0 .. k\<close> are
  made: attempt 0 at once, and after each attempt \<open>j < k\<close> a wait of
  \<open>baseDelay * 2^j\<close> before attempt \<open>j + 1\<close>.
\<close>

definition schedule :: "int \<Rightarrow> nat \<Rightarrow> step list" where
  "schedule baseDelay k =
     concat (map (\<lambda>j. [Attempt, Wait (baseDelay * 2 ^ j)]) [0..<k]) @ [Attempt]"

text \<open>The error an unsuccessful attempt throws.\<close>

fun thrown :: "attempt \<Rightarrow> js_error" where
  "thrown ClusterMissing = ClusterNotOnEndpoint"
| "thrown (Rejects e) = TransportError e"
| "thrown Resolves = LastErrorUndefined"

text \<open>
  What the attempts \<open>0 .. k\<close> of a write are, read off the environment. The device
  had made \<open>n0\<close> attempts and used \<open>c\<close> transaction numbers before. Attempt
  \<open>j\<close> is the failed cluster check when the cluster is missing, and otherwise the
  transmit of the frame with the next transaction number; after each attempt \<open>j < k\<close>
  comes the wait of \<open>baseDelay * 2^j\<close>.
\<close>

definition transmits_before :: "(nat \<Rightarrow> attempt) \<Rightarrow> nat \<Rightarrow> nat \<Rightarrow> nat" where
  "transmits_before env n0 j = length (filter (\<lambda>i. env (n0 + i) \<noteq> ClusterMissing) [0..<j])"

definition attempt_event ::
  "(nat \<Rightarrow> attempt) \<Rightarrow> nat \<Rightarrow> nat \<Rightarrow> nat \<Rightarrow> int \<Rightarrow> byte list \<Rightarrow> nat \<Rightarrow> event" where
  "attempt_event env n0 c dp dt d j =
     (if env (n0 + j) = ClusterMissing then ClusterCheckFailed
      else Datapoint 0 ((c + transmits_before env n0 j) mod 256) dp dt (length d) d)"

definition attempts_trace ::
  "(nat \<Rightarrow> attempt) \<Rightarrow> nat \<Rightarrow> nat \<Rightarrow> nat \<Rightarrow> int \<Rightarrow> byte list \<Rightarrow> int \<Rightarrow> nat \<Rightarrow> event list" where
  "attempts_trace env n0 c dp dt d baseDelay k =
     concat (map (\<lambda>j. [attempt_event env n0 c dp dt d j, SetTimeout (baseDelay * 2 ^ j)]) [0..<k])
       @ [attempt_event env n0 c dp dt d k]"

definition fresh_device :: tuya_device where
  "fresh_device = \<lparr>transactionID_counter = 0, attempts_made = 0, trace = [], available = True\<rparr>"

section \<open>The on/off listener of the 4-gang switch\<close>









section \<open>Bulk commands\<close>

record bulk_command =
  ctype :: string
  cdp :: nat
  cvalue :: js_value

datatype bulk_error = DeviceUnavailable | AbortedConsecutiveFailures | Thrown js_error

text \<open>
  One entry \<open>{success, dp, result | error}\<close> of the returned list. The write methods
  return nothing, so \<open>result\<close> carries no information and an entry without error is a
  success entry.
\<close>

record bulk_result =
  res_success :: bool
  res_dp :: nat
  res_error :: "bulk_error option"

definition unavailable_entry :: "bulk_command \<Rightarrow> bulk_result" where
  "unavailable_entry c = \<lparr>res_success = False, res_dp = cdp c, res_error = Some DeviceUnavailable\<rparr>"

definition aborted_entry :: "bulk_command \<Rightarrow> bulk_result" where
  "aborted_entry c =
     \<lparr>res_success = False, res_dp = cdp c, res_error = Some AbortedConsecutiveFailures\<rparr>"

definition entry_of :: "bulk_command \<Rightarrow> js_error + unit \<Rightarrow> bulk_result" where
  "entry_of c r =
     (case r of
        Inr u \<Rightarrow> \<lparr>res_success = True, res_dp = cdp c, res_error = None\<rparr>
      | Inl e \<Rightarrow> \<lparr>res_success = False, res_dp = cdp c, res_error = Some (Thrown e)\<rparr>)"

text \<open>The \<open>switch\<close> on \<open>cmd.type\<close>; bulk items are written with 2 retries and 200 ms.\<close>

definition run_command ::
  "(js_value \<Rightarrow> js_string) \<Rightarrow> (nat \<Rightarrow> attempt) \<Rightarrow> bulk_command \<Rightarrow>
     'a tuya_device_scheme \<Rightarrow> (js_error + unit) \<times> 'a tuya_device_scheme" where
  "run_command conv env c s =
     (if ctype c = ''bool'' then writeBool env (cdp c) (cvalue c) 2 200 s
      else if ctype c = ''enum'' then writeEnum env (cdp c) (cvalue c) 2 200 s
      else if ctype c = ''data32'' then writeData32 env (cdp c) (cvalue c) 2 200 s
      else if ctype c = ''string'' then writeString conv env (cdp c) (cvalue c) 2 200 s
      else if ctype c = ''raw'' then writeRaw env (cdp c) (cvalue c) 2 200 s
      else (Inl (UnknownType (ctype c)), s))"

text \<open>
  The \<open>for\<close> loop over the commands, from the current command on, with the counter
  \<open>fails\<close>. \<open>i < commands.length - 1\<close> holds exactly when commands remain.
\<close>

fun bulk_loop ::
  "(js_value \<Rightarrow> js_string) \<Rightarrow> (nat \<Rightarrow> attempt) \<Rightarrow> int \<Rightarrow> nat \<Rightarrow> bulk_command list \<Rightarrow>
     'a tuya_device_scheme \<Rightarrow> bulk_result list \<times> 'a tuya_device_scheme" where
  "bulk_loop conv env delay fails [] s = ([], s)"
| "bulk_loop conv env delay fails (c # rest) s =
     (if 2 \<le> fails then
        (case bulk_loop conv env delay fails rest s of
           (results, s') \<Rightarrow> (aborted_entry c # results, s'))
      else
        (case run_command conv env c s of
           (r, s1) \<Rightarrow>
             (case bulk_loop conv env delay (case r of Inr u \<Rightarrow> 0 | Inl e \<Rightarrow> Suc fails) rest
                     (if rest \<noteq> [] then sleep delay s1 else s1) of
                (results, s') \<Rightarrow> (entry_of c r # results, s'))))"

definition sendBulkCommands ::
  "(js_value \<Rightarrow> js_string) \<Rightarrow> (nat \<Rightarrow> attempt) \<Rightarrow> bulk_command list \<Rightarrow> int \<Rightarrow>
     'a tuya_device_scheme \<Rightarrow> bulk_result list \<times> 'a tuya_device_scheme" where
  "sendBulkCommands conv env commands delayBetween s =
     (if commands = [] then ([], s)
      else if \<not> available s then (map unavailable_entry commands, s)
      else bulk_loop conv env (max 150 delayBetween) 0 commands s)"

text \<open>
  A batch of four commands: the second is a valid write, the third carries an enum value
  out of range, which \<open>writeEnum\<close> rejects before sending anything.
\<close>

definition sample_batch :: "bulk_command list" where
  "sample_batch =
     [\<lparr>ctype = ''bool'', cdp = 1, cvalue = JBool True\<rparr>,
      \<lparr>ctype = ''data32'', cdp = 2, cvalue = JNum 300\<rparr>,
      \<lparr>ctype = ''enum'', cdp = 3, cvalue = JNum 300\<rparr>,
      \<lparr>ctype = ''bool'', cdp = 4, cvalue = JBool False\<rparr>]"

section \<open>Time synchronisation\<close>

text \<open>
  The argument of \<open>sendTimeResponse\<close>: no request, a request whose
  \<open>payload || data\<close> is not a Buffer, or a request with a Buffer.
\<close>

datatype time_request = NoRequest | RequestWithoutBuffer | RequestBuffer "byte list"









section \<open>Availability manager\<close>

text \<open>
  A host device, as far as the manager looks at it: what \<open>getData()\<close> answers (it may
  throw, or return no object) and whether the host reports it available. Devices live in
  a store addressed by references; \<open>driver_devices\<close> is what
  \<open>device.driver.getDevices()\<close> returns (\<open>None\<close> when that call throws), and
  \<open>this_device\<close> is the device the manager was created for.
\<close>

record device_data =
  ieeeAddress :: "string option"
  token :: "string option"

datatype getData_result = GetDataThrows | GetDataNull | GetData device_data

record homey_device =
  getData :: getData_result
  dev_available :: bool

datatype getSettings_result = GetSettingsThrows | SettingValue js_value

text \<open>
  What the manager writes and calls, in order: its log lines and the host calls
  \<open>setAvailable\<close> and \<open>setUnavailable\<close> (with the idle minutes of the reason).
\<close>

datatype avail_event =
    LogRestoring
  | LogIdle int
  | LogTimeout int
  | LogAvailable nat
  | LogUnavailable nat int
  | CallSetAvailable nat
  | CallSetUnavailable nat int

text \<open>
  \<open>setting\<close> is the value of the monitoring key in the device's settings,
  \<open>last_seen_ts\<close> the persisted store value (\<open>None\<close> when nothing was stored),
  \<open>getStoreValue_throws\<close> whether reading the store throws. The host's setters
  (\<open>setStoreValue\<close>, \<open>setAvailable\<close>, \<open>setUnavailable\<close>) are taken to succeed.
\<close>

record manager =
  heap :: "nat \<Rightarrow> homey_device"
  this_device :: nat
  driver_devices :: "nat list option"
  setting :: getSettings_result
  last_seen_ts :: "int option"
  getStoreValue_throws :: bool
  timeout :: int
  log :: "avail_event list"

definition isEnabled :: "manager \<Rightarrow> bool" where
  "isEnabled m =
     (case setting m of GetSettingsThrows \<Rightarrow> True | SettingValue v \<Rightarrow> v \<noteq> JBool False)"

text \<open>JavaScript truthiness of an optional string and of an optional number.\<close>

fun truthy_string :: "string option \<Rightarrow> bool" where
  "truthy_string None = False"
| "truthy_string (Some a) = (a \<noteq> [])"

fun truthy_number :: "int option \<Rightarrow> bool" where
  "truthy_number None = False"
| "truthy_number (Some t) = (t \<noteq> 0)"

text \<open>The filter predicates of \<open>_getSiblings\<close>; a throwing \<open>getData()\<close> gives false.\<close>

fun ieee_is :: "string option \<Rightarrow> homey_device \<Rightarrow> bool" where
  "ieee_is a d =
     (case getData d of
        GetData dd \<Rightarrow> ieeeAddress dd = a
      | _ \<Rightarrow> False)"

fun token_is :: "string option \<Rightarrow> homey_device \<Rightarrow> bool" where
  "token_is a d =
     (case getData d of
        GetData dd \<Rightarrow> token dd = a
      | _ \<Rightarrow> False)"

definition by_token :: "manager \<Rightarrow> string option \<Rightarrow> nat list \<Rightarrow> nat list" where
  "by_token m myToken allDevices =
     (if truthy_string myToken \<and> filter (\<lambda>r. token_is myToken (heap m r)) allDevices \<noteq> []
      then filter (\<lambda>r. token_is myToken (heap m r)) allDevices
      else [this_device m])"

definition by_ieee :: "manager \<Rightarrow> string option \<Rightarrow> string option \<Rightarrow> nat list \<Rightarrow> nat list" where
  "by_ieee m myIeee myToken allDevices =
     (if truthy_string myIeee \<and> filter (\<lambda>r. ieee_is myIeee (heap m r)) allDevices \<noteq> []
      then filter (\<lambda>r. ieee_is myIeee (heap m r)) allDevices
      else by_token m myToken allDevices)"

definition getSiblings :: "manager \<Rightarrow> nat list" where
  "getSiblings m =
     (case getData (heap m (this_device m)) of
        GetDataThrows \<Rightarrow> [this_device m]
      | GetDataNull \<Rightarrow>
          (case driver_devices m of
             None \<Rightarrow> [this_device m]
           | Some allDevices \<Rightarrow> by_ieee m None None allDevices)
      | GetData myData \<Rightarrow>
          (case driver_devices m of
             None \<Rightarrow> [this_device m]
           | Some allDevices \<Rightarrow> by_ieee m (ieeeAddress myData) (token myData) allDevices))"

definition set_available :: "nat \<Rightarrow> manager \<Rightarrow> manager" where
  "set_available r m =
     m\<lparr>heap := (heap m)(r := (heap m r)\<lparr>dev_available := True\<rparr>),
       log := log m @ [LogAvailable r, CallSetAvailable r]\<rparr>"

definition set_unavailable :: "int \<Rightarrow> nat \<Rightarrow> manager \<Rightarrow> manager" where
  "set_unavailable idleMin r m =
     m\<lparr>heap := (heap m)(r := (heap m r)\<lparr>dev_available := False\<rparr>),
       log := log m @ [LogUnavailable r idleMin, CallSetUnavailable r idleMin]\<rparr>"

text \<open>
  The two \<open>for ... of\<close> iterations over the siblings, which are resolved once, before
  the first sibling is visited.
\<close>

fun restore_each :: "nat list \<Rightarrow> manager \<Rightarrow> manager" where
  "restore_each [] m = m"
| "restore_each (r # rs) m =
     restore_each rs (if \<not> dev_available (heap m r) then set_available r m else m)"

fun lose_each :: "int \<Rightarrow> nat list \<Rightarrow> manager \<Rightarrow> manager" where
  "lose_each idleMin [] m = m"
| "lose_each idleMin (r # rs) m =
     lose_each idleMin rs (if dev_available (heap m r) then set_unavailable idleMin r m else m)"

definition markAllAvailable :: "manager \<Rightarrow> manager" where
  "markAllAvailable m = restore_each (getSiblings m) m"

definition markAllUnavailable :: "int \<Rightarrow> manager \<Rightarrow> manager" where
  "markAllUnavailable idleMin m = lose_each idleMin (getSiblings m) m"

definition markAlive :: "int \<Rightarrow> manager \<Rightarrow> manager" where
  "markAlive now m =
     (let m1 = m\<lparr>last_seen_ts := Some now\<rparr>
      in if \<not> dev_available (heap m1 (this_device m1))
         then markAllAvailable (m1\<lparr>log := log m1 @ [LogRestoring]\<rparr>)
         else m1)"

text \<open>\<open>getStoreValue\<close> inside its own \<open>try\<close>: a throw reads as \<open>null\<close>.\<close>

definition read_last_seen :: "manager \<Rightarrow> int option" where
  "read_last_seen m = (if getStoreValue_throws m then None else last_seen_ts m)"

text \<open>\<open>Math.round(idle / 60000)\<close> on an integer number of milliseconds.\<close>

definition idle_minutes :: "int \<Rightarrow> int" where
  "idle_minutes idle = (idle + 30000) div 60000"

text \<open>One run of the watchdog's interval callback at clock value \<open>now\<close>.\<close>

definition watchdog_tick :: "int \<Rightarrow> manager \<Rightarrow> manager" where
  "watchdog_tick now m =
     (if \<not> isEnabled m then m
      else
        (case read_last_seen m of
           None \<Rightarrow> m\<lparr>last_seen_ts := Some now\<rparr>
         | Some lastSeen \<Rightarrow>
             (if lastSeen = 0 then m\<lparr>last_seen_ts := Some now\<rparr>
              else
                (let idle = now - lastSeen;
                     idleMin = idle_minutes idle;
                     m1 = (if idleMin mod 5 = 0 \<and> idleMin > 0
                           then m\<lparr>log := log m @ [LogIdle idleMin]\<rparr> else m)
                 in if dev_available (heap m1 (this_device m1)) \<and> idle > timeout m1
                    then markAllUnavailable idleMin (m1\<lparr>log := log m1 @ [LogTimeout idleMin]\<rparr>)
                    else m1))))"

text \<open>What happens to a node over time: watchdog ticks and activity marks, with their clock.\<close>

datatype occurrence = Tick int | Activity int

fun clock_of :: "occurrence \<Rightarrow> int" where
  "clock_of (Tick t) = t"
| "clock_of (Activity t) = t"

fun occur :: "occurrence \<Rightarrow> manager \<Rightarrow> manager" where
  "occur (Tick t) m = watchdog_tick t m"
| "occur (Activity t) m = markAlive t m"

fun run :: "occurrence list \<Rightarrow> manager \<Rightarrow> manager" where
  "run [] m = m"
| "run (e # es) m = run es (occur e m)"

fun is_CallSetUnavailable :: "avail_event \<Rightarrow> bool" where
  "is_CallSetUnavailable (CallSetUnavailable r i) = True"
| "is_CallSetUnavailable _ = False"

subsection \<open>The sibling set as the specification words it\<close>

text \<open>
  All devices of the driver sharing the device's hardware address if that set is not
  empty, else all devices sharing its secondary token if not empty, else the device alone.
  A device without a (non-empty) address or token shares it with nobody.
\<close>

definition my_data :: "manager \<Rightarrow> device_data" where
  "my_data m =
     (case getData (heap m (this_device m)) of
        GetData dd \<Rightarrow> dd
      | _ \<Rightarrow> \<lparr>ieeeAddress = None, token = None\<rparr>)"

definition all_devices :: "manager \<Rightarrow> nat set" where
  "all_devices m =
     (case getData (heap m (this_device m)) of
        GetDataThrows \<Rightarrow> {}
      | _ \<Rightarrow> (case driver_devices m of None \<Rightarrow> {} | Some ds \<Rightarrow> set ds))"

definition sharing_ieee :: "manager \<Rightarrow> nat set" where
  "sharing_ieee m =
     {r \<in> all_devices m. truthy_string (ieeeAddress (my_data m))
        \<and> ieee_is (ieeeAddress (my_data m)) (heap m r)}"

definition sharing_token :: "manager \<Rightarrow> nat set" where
  "sharing_token m =
     {r \<in> all_devices m. truthy_string (token (my_data m))
        \<and> token_is (token (my_data m)) (heap m r)}"

definition sibling_set :: "manager \<Rightarrow> nat set" where
  "sibling_set m =
     (if sharing_ieee m \<noteq> {} then sharing_ieee m
      else if sharing_token m \<noteq> {} then sharing_token m
      else {this_device m})"


subsection \<open>A three-gang node\<close>

text \<open>
  Three virtual devices 0, 1 and 2 of one driver share a hardware address; the manager
  belongs to device 0 and has a timeout of 600000 ms. Every other reference is a device
  without data.
\<close>

definition gang_data :: device_data where
  "gang_data = \<lparr>ieeeAddress = Some ''00:12:4b:00:25:6a:3f:01'', token = None\<rparr>"

fun three_gang_heap :: "nat \<Rightarrow> homey_device" where
  "three_gang_heap r =
     (if r < 3 then \<lparr>getData = GetData gang_data, dev_available = True\<rparr>
      else \<lparr>getData = GetDataNull, dev_available = True\<rparr>)"

definition three_gang :: manager where
  "three_gang =
     \<lparr>heap = three_gang_heap, this_device = 0, driver_devices = Some [0, 1, 2],
      setting = SettingValue (JBool True), last_seen_ts = None, getStoreValue_throws = False,
      timeout = 600000, log = []\<rparr>"

section \<open>Properties of the DP codec\<close>

lemma shift_or_add: "shift_or acc b = acc * 256 + ucast b"
proof -
  have "push_bit 8 acc AND (ucast b :: 32 word) = 0"
    by (rule bit_eqI) (auto simp add: bit_simps dest: bit_imp_le_length)
  then have "push_bit 8 acc + (ucast b :: 32 word) = push_bit 8 acc OR ucast b"
    by (rule disjunctive_add_eq_or)
  then show ?thesis
    by (simp add: shift_or_def push_bit_eq_mult)
qed

lemma foldl_shift_or:
  "foldl shift_or (word_of_int a) d = word_of_int (foldl (\<lambda>acc b. acc * 256 + uint b) a d)"
proof (induction d arbitrary: a)
  case Nil
  show ?case by simp
next
  case (Cons b d)
  have "shift_or (word_of_int a) b = word_of_int (a * 256 + uint b)"
    by (simp add: shift_or_add)
  then show ?case using Cons.IH [of "a * 256 + uint b"] by simp
qed

lemma sint_ToInt32: "sint (word_of_int x :: 32 word) = ToInt32 x"
  by (simp add: ToInt32_def signed_of_int signed_take_bit_eq_take_bit_shift take_bit_eq_mod)

lemma convert_closed_form:
  "convertMultiByteNumberPayloadToSingleDecimalNumber d = ToInt32 (big_endian d)"
proof (cases "d = []")
  case True
  then show ?thesis
    by (simp add: convertMultiByteNumberPayloadToSingleDecimalNumber_def big_endian_def ToInt32_def)
next
  case False
  have "foldl shift_or 0 d = word_of_int (big_endian d)"
    using foldl_shift_or [of 0 d] by (simp add: big_endian_def)
  with False show ?thesis
    by (simp add: convertMultiByteNumberPayloadToSingleDecimalNumber_def sint_ToInt32)
qed

lemma big_endian_bounds_aux:
  "0 \<le> a \<Longrightarrow> 0 \<le> foldl (\<lambda>acc b. acc * 256 + uint (b::byte)) a d \<and>
     foldl (\<lambda>acc b. acc * 256 + uint b) a d < (a + 1) * 256 ^ length d"
proof (induction d arbitrary: a)
  case Nil
  then show ?case by simp
next
  case (Cons b d)
  define F where "F = foldl (\<lambda>acc b. acc * 256 + uint b) (a * 256 + uint b) d"
  define P where "P = (256::int) ^ length d"
  have P: "0 \<le> P" by (simp add: P_def)
  have b: "0 \<le> uint b" "uint b < 256"
    using uint_bounded [of b] by simp_all
  from Cons.prems b have a': "0 \<le> a * 256 + uint b" by simp
  from b have "a * 256 + uint b + 1 \<le> (a + 1) * 256" by (simp add: algebra_simps)
  then have le: "(a * 256 + uint b + 1) * P \<le> ((a + 1) * 256) * P"
    using P by (rule mult_right_mono)
  from Cons.IH [OF a'] have nonneg: "0 \<le> F" and less: "F < (a * 256 + uint b + 1) * P"
    by (simp_all add: F_def P_def)
  from less le have "F < ((a + 1) * 256) * P"
    by (rule less_le_trans)
  then have "F < (a + 1) * 256 ^ length (b # d)"
    by (simp add: P_def algebra_simps)
  with nonneg show ?case by (simp add: F_def)
qed

lemma big_endian_nonneg: "0 \<le> big_endian d"
  using big_endian_bounds_aux [of 0 d] by (simp add: big_endian_def)

lemma big_endian_less: "big_endian d < 256 ^ length d"
  using big_endian_bounds_aux [of 0 d] by (simp add: big_endian_def)

lemma ToInt32_small: "0 \<le> x \<Longrightarrow> x < 2147483648 \<Longrightarrow> ToInt32 x = x"
  by (simp add: ToInt32_def)


text \<open>Data of at most three bytes decodes to its plain big-endian number.\<close>

lemma convert_short:
  assumes "length d \<le> 3"
  shows "convertMultiByteNumberPayloadToSingleDecimalNumber d = big_endian d"
proof -
  have "(256::int) ^ length d \<le> 256 ^ 3"
    using assms by (intro power_increasing) simp_all
  with big_endian_less [of d] have "big_endian d < 2147483648" by simp
  with big_endian_nonneg [of d] show ?thesis
    by (simp add: convert_closed_form ToInt32_small)
qed


lemma decode_simps:
  "decode 0 d = Inr (JBuf d)"
  "decode 1 d = Inr (JBool (first_is_one d))"
  "decode 2 d = Inr (JNum (convertMultiByteNumberPayloadToSingleDecimalNumber d))"
  "decode 3 d = Inr (JStr (String_fromCharCode d))"
  "decode 4 d = Inr (first_byte d)"
  "decode 5 d = Inr (JNum (convertMultiByteNumberPayloadToSingleDecimalNumber d))"
  by (simp_all add: decode_def getDataValue_def)

lemma decode_array_simps:
  "decode_array 0 d = Inr (JArr d)"
  "decode_array 1 d = decode 1 d"
  "decode_array 2 d = decode 2 d"
  "decode_array 3 d = decode 3 d"
  "decode_array 4 d = decode 4 d"
  "decode_array 5 d = decode 5 d"
  by (simp_all add: decode_array_def decode_def getDataValue_def)

lemma first_is_one_iff: "first_is_one d = (d \<noteq> [] \<and> hd d = 1)"
  by (cases d) simp_all

text \<open>
  C3. Decoding is a function of the datatype and the data alone. A bool decodes to true
  exactly when the first byte is 1 (and to false on empty data). A value or a bitmap
  decodes to the accumulation \<open>acc = (acc << 8) | byte\<close> over all the bytes in order,
  carried out in JavaScript's 32-bit signed arithmetic: the big-endian number of the bytes
  reduced by ToInt32. An enum decodes to its first byte. In particular
  \<open>decode(2, [0x01, 0x2C]) = 300\<close>, \<open>decode(1, [0x01]) = true\<close>,
  \<open>decode(1, [0x00]) = false\<close> and \<open>decode(4, [0x05]) = 5\<close>. For these four
  datatypes the result is the same whether the bytes come in a Buffer or in an Array.
\<close>

theorem getDataValue_decodes:
  "decode 1 d = Inr (JBool (d \<noteq> [] \<and> hd d = 1))
   \<and> decode 2 d = Inr (JNum (sint (foldl shift_or 0 d)))
   \<and> decode 5 d = Inr (JNum (sint (foldl shift_or 0 d)))
   \<and> decode 2 d = Inr (JNum (ToInt32 (big_endian d)))
   \<and> decode 5 d = Inr (JNum (ToInt32 (big_endian d)))
   \<and> decode 4 (b # d) = Inr (JNum (uint b))
   \<and> decode 2 [0x01, 0x2C] = Inr (JNum 300)
   \<and> decode 1 [0x01] = Inr (JBool True)
   \<and> decode 1 [0x00] = Inr (JBool False)
   \<and> decode 4 [0x05] = Inr (JNum 5)
   \<and> decode_array 1 d = decode 1 d
   \<and> decode_array 2 d = decode 2 d
   \<and> decode_array 4 d = decode 4 d
   \<and> decode_array 5 d = decode 5 d"
proof -
  have acc: "convertMultiByteNumberPayloadToSingleDecimalNumber d = sint (foldl shift_or 0 d)"
    by (simp add: convertMultiByteNumberPayloadToSingleDecimalNumber_def)
  have ex: "convertMultiByteNumberPayloadToSingleDecimalNumber [0x01, 0x2C] = 300"
    by (simp add: convertMultiByteNumberPayloadToSingleDecimalNumber_def shift_or_def)
  show ?thesis
    by (simp add: decode_simps decode_array_simps first_is_one_iff acc [symmetric] ex
        convert_closed_form [symmetric])
qed














section \<open>Properties of the command dispatcher\<close>

lemma transmit_fields [simp]:
  "trace (transmit dp dt d s) =
     trace s @ [Datapoint 0 (transactionID_counter s mod 256) dp dt (length d) d]"
  "attempts_made (transmit dp dt d s) = Suc (attempts_made s)"
  "available (transmit dp dt d s) = available s"
  by (simp_all add: transmit_def)

lemma cluster_check_fails_fields [simp]:
  "trace (cluster_check_fails s) = trace s @ [ClusterCheckFailed]"
  "attempts_made (cluster_check_fails s) = Suc (attempts_made s)"
  "available (cluster_check_fails s) = available s"
  by (simp_all add: cluster_check_fails_def)

lemma sleep_fields [simp]:
  "trace (sleep ms s) = trace s @ [SetTimeout ms]"
  "attempts_made (sleep ms s) = attempts_made s"
  "available (sleep ms s) = available s"
  by (simp_all add: sleep_def)

lemma backoff_fields:
  "trace (backoff maxRetries baseDelay a s) =
     trace s @ (if int a < maxRetries then [SetTimeout (baseDelay * 2 ^ a)] else [])"
  "attempts_made (backoff maxRetries baseDelay a s) = attempts_made s"
  by (simp_all add: backoff_def)

lemma loop_transmit_count:
  "length (filter is_Datapoint
      (trace (snd (sendTuyaDatapoint_loop env dp dt d maxRetries baseDelay a le s))))
     \<le> length (filter is_Datapoint (trace s)) + nat (maxRetries + 1 - int a)"
proof (induction env dp dt d maxRetries baseDelay a le s rule: sendTuyaDatapoint_loop.induct)
  case (1 env dp dt d maxRetries baseDelay a le s)
  show ?case
  proof (cases "int a \<le> maxRetries")
    case False
    then show ?thesis
      by (simp add: sendTuyaDatapoint_loop.simps [of env dp dt d maxRetries baseDelay a]
          split: option.split)
  next
    case True
    show ?thesis
    proof (cases "env (attempts_made s)")
      case Resolves
      with True show ?thesis
        by (simp add: sendTuyaDatapoint_loop.simps [of env dp dt d maxRetries baseDelay a])
    next
      case (Rejects e)
      with True "1.IH"(2) [OF True Rejects] show ?thesis
        by (simp add: sendTuyaDatapoint_loop.simps [of env dp dt d maxRetries baseDelay a]
            backoff_fields)
    next
      case ClusterMissing
      with True "1.IH"(1) [OF True ClusterMissing] show ?thesis
        by (simp add: sendTuyaDatapoint_loop.simps [of env dp dt d maxRetries baseDelay a]
            backoff_fields)
    qed
  qed
qed

lemma loop_done:
  "\<not> int a \<le> maxRetries \<Longrightarrow>
     sendTuyaDatapoint_loop env dp dt d maxRetries baseDelay a (Some e) s = (Inl e, s)"
  by (simp add: sendTuyaDatapoint_loop.simps [of env dp dt d maxRetries baseDelay a])

lemma transmits_before_Suc:
  "transmits_before env n0 (Suc j) =
     transmits_before env n0 j + (if env (n0 + j) = ClusterMissing then 0 else 1)"
  by (simp add: transmits_before_def)

lemma loop_exact_success:
  assumes "attempts_made s = n0 + a" and "transactionID_counter s = c + transmits_before env n0 a"
    and "a \<le> k" and "int k \<le> maxRetries"
    and "\<forall>j. a \<le> j \<and> j < k \<longrightarrow> env (n0 + j) \<noteq> Resolves"
    and "env (n0 + k) = Resolves"
  shows "sendTuyaDatapoint_loop env dp dt d maxRetries baseDelay a le s =
     (Inr (), s\<lparr>trace := trace s @
          concat (map (\<lambda>j. [attempt_event env n0 c dp dt d j, SetTimeout (baseDelay * 2 ^ j)])
             [a..<k]) @ [attempt_event env n0 c dp dt d k],
        transactionID_counter := c + transmits_before env n0 (Suc k),
        attempts_made := n0 + Suc k\<rparr>)"
  using assms
proof (induction "k - a" arbitrary: a s le)
  case 0
  then have "a = k" by simp
  with 0 show ?case
    by (simp add: sendTuyaDatapoint_loop.simps [of env dp dt d maxRetries baseDelay k]
        transmit_def attempt_event_def transmits_before_Suc)
next
  case (Suc n)
  then have lt: "a < k" by simp
  with Suc.prems have ne: "env (n0 + a) \<noteq> Resolves" by simp
  from lt Suc.prems have le_max: "int a \<le> maxRetries" "int a < maxRetries" by simp_all
  have upt: "[a..<k] = a # [Suc a..<k]"
    using lt by (simp add: upt_conv_Cons)
  show ?case
  proof (cases "env (n0 + a)")
    case Resolves
    with ne show ?thesis by simp
  next
    case (Rejects e)
    let ?s1 = "backoff maxRetries baseDelay a (transmit dp dt d s)"
    have step: "sendTuyaDatapoint_loop env dp dt d maxRetries baseDelay a le s =
        sendTuyaDatapoint_loop env dp dt d maxRetries baseDelay (Suc a) (Some (TransportError e)) ?s1"
      using le_max Rejects Suc.prems(1)
      by (simp add: sendTuyaDatapoint_loop.simps [of env dp dt d maxRetries baseDelay a])
    have s1: "?s1 = s\<lparr>trace := trace s @
          [attempt_event env n0 c dp dt d a, SetTimeout (baseDelay * 2 ^ a)],
        transactionID_counter := c + transmits_before env n0 (Suc a),
        attempts_made := n0 + Suc a\<rparr>"
      using le_max Rejects Suc.prems(1,2)
      by (simp add: backoff_def sleep_def transmit_def attempt_event_def transmits_before_Suc)
    have "sendTuyaDatapoint_loop env dp dt d maxRetries baseDelay (Suc a)
            (Some (TransportError e)) ?s1 =
        (Inr (), ?s1\<lparr>trace := trace ?s1 @
          concat (map (\<lambda>j. [attempt_event env n0 c dp dt d j, SetTimeout (baseDelay * 2 ^ j)])
             [Suc a..<k]) @ [attempt_event env n0 c dp dt d k],
        transactionID_counter := c + transmits_before env n0 (Suc k),
        attempts_made := n0 + Suc k\<rparr>)"
      using Suc.hyps(2) Suc.prems lt by (intro Suc.hyps(1)) (auto simp add: s1)
    with step show ?thesis
      by (simp add: s1 upt)
  next
    case ClusterMissing
    let ?s1 = "backoff maxRetries baseDelay a (cluster_check_fails s)"
    have step: "sendTuyaDatapoint_loop env dp dt d maxRetries baseDelay a le s =
        sendTuyaDatapoint_loop env dp dt d maxRetries baseDelay (Suc a) (Some ClusterNotOnEndpoint) ?s1"
      using le_max ClusterMissing Suc.prems(1)
      by (simp add: sendTuyaDatapoint_loop.simps [of env dp dt d maxRetries baseDelay a])
    have s1: "?s1 = s\<lparr>trace := trace s @
          [attempt_event env n0 c dp dt d a, SetTimeout (baseDelay * 2 ^ a)],
        transactionID_counter := c + transmits_before env n0 (Suc a),
        attempts_made := n0 + Suc a\<rparr>"
      using le_max ClusterMissing Suc.prems(1,2)
      by (simp add: backoff_def sleep_def cluster_check_fails_def attempt_event_def
          transmits_before_Suc)
    have "sendTuyaDatapoint_loop env dp dt d maxRetries baseDelay (Suc a)
            (Some ClusterNotOnEndpoint) ?s1 =
        (Inr (), ?s1\<lparr>trace := trace ?s1 @
          concat (map (\<lambda>j. [attempt_event env n0 c dp dt d j, SetTimeout (baseDelay * 2 ^ j)])
             [Suc a..<k]) @ [attempt_event env n0 c dp dt d k],
        transactionID_counter := c + transmits_before env n0 (Suc k),
        attempts_made := n0 + Suc k\<rparr>)"
      using Suc.hyps(2) Suc.prems lt by (intro Suc.hyps(1)) (auto simp add: s1)
    with step show ?thesis
      by (simp add: s1 upt)
  qed
qed


lemma loop_exact_exhausted:
  assumes "attempts_made s = n0 + a" and "transactionID_counter s = c + transmits_before env n0 a"
    and "a \<le> m"
    and "\<forall>j. a \<le> j \<and> j \<le> m \<longrightarrow> env (n0 + j) \<noteq> Resolves"
  shows "sendTuyaDatapoint_loop env dp dt d (int m) baseDelay a le s =
     (Inl (thrown (env (n0 + m))), s\<lparr>trace := trace s @
          concat (map (\<lambda>j. [attempt_event env n0 c dp dt d j, SetTimeout (baseDelay * 2 ^ j)])
             [a..<m]) @ [attempt_event env n0 c dp dt d m],
        transactionID_counter := c + transmits_before env n0 (Suc m),
        attempts_made := n0 + Suc m\<rparr>)"
  using assms
proof (induction "m - a" arbitrary: a s le)
  case 0
  then have am: "a = m" by simp
  with 0 have ne: "env (n0 + m) \<noteq> Resolves" by simp
  from am 0 have le_max: "int m \<le> (int m)" "\<not> int m < (int m)" "\<not> int (Suc m) \<le> (int m)"
    by simp_all
  show ?case
  proof (cases "env (n0 + m)")
    case Resolves
    with ne show ?thesis by simp
  next
    case (Rejects e)
    let ?s1 = "backoff (int m) baseDelay m (transmit dp dt d s)"
    have step: "sendTuyaDatapoint_loop env dp dt d (int m) baseDelay m le s =
        sendTuyaDatapoint_loop env dp dt d (int m) baseDelay (Suc m) (Some (TransportError e)) ?s1"
      using le_max Rejects "0.prems"(1) am
      by (simp add: sendTuyaDatapoint_loop.simps [of env dp dt d "int m" baseDelay m])
    have s1: "?s1 = s\<lparr>trace := trace s @ [attempt_event env n0 c dp dt d m],
        transactionID_counter := c + transmits_before env n0 (Suc m),
        attempts_made := n0 + Suc m\<rparr>"
      using le_max Rejects "0.prems"(1,2) am
      by (simp add: backoff_def transmit_def attempt_event_def transmits_before_Suc)
    from step loop_done [OF le_max(3), of env dp dt d baseDelay "TransportError e" ?s1]
    show ?thesis
      using Rejects am by (simp add: s1)
  next
    case ClusterMissing
    let ?s1 = "backoff (int m) baseDelay m (cluster_check_fails s)"
    have step: "sendTuyaDatapoint_loop env dp dt d (int m) baseDelay m le s =
        sendTuyaDatapoint_loop env dp dt d (int m) baseDelay (Suc m) (Some ClusterNotOnEndpoint) ?s1"
      using le_max ClusterMissing "0.prems"(1) am
      by (simp add: sendTuyaDatapoint_loop.simps [of env dp dt d "int m" baseDelay m])
    have s1: "?s1 = s\<lparr>trace := trace s @ [attempt_event env n0 c dp dt d m],
        transactionID_counter := c + transmits_before env n0 (Suc m),
        attempts_made := n0 + Suc m\<rparr>"
      using le_max ClusterMissing "0.prems"(1,2) am
      by (simp add: backoff_def cluster_check_fails_def attempt_event_def transmits_before_Suc)
    from step loop_done [OF le_max(3), of env dp dt d baseDelay ClusterNotOnEndpoint ?s1]
    show ?thesis
      using ClusterMissing am by (simp add: s1)
  qed
next
  case (Suc n)
  then have lt: "a < m" by simp
  with Suc.prems have ne: "env (n0 + a) \<noteq> Resolves" by simp
  from lt Suc.prems have le_max: "int a \<le> (int m)" "int a < (int m)" by simp_all
  have upt: "[a..<m] = a # [Suc a..<m]"
    using lt by (simp add: upt_conv_Cons)
  show ?case
  proof (cases "env (n0 + a)")
    case Resolves
    with ne show ?thesis by simp
  next
    case (Rejects e)
    let ?s1 = "backoff (int m) baseDelay a (transmit dp dt d s)"
    have step: "sendTuyaDatapoint_loop env dp dt d (int m) baseDelay a le s =
        sendTuyaDatapoint_loop env dp dt d (int m) baseDelay (Suc a) (Some (TransportError e)) ?s1"
      using le_max Rejects Suc.prems(1)
      by (simp add: sendTuyaDatapoint_loop.simps [of env dp dt d "int m" baseDelay a])
    have s1: "?s1 = s\<lparr>trace := trace s @
          [attempt_event env n0 c dp dt d a, SetTimeout (baseDelay * 2 ^ a)],
        transactionID_counter := c + transmits_before env n0 (Suc a),
        attempts_made := n0 + Suc a\<rparr>"
      using le_max Rejects Suc.prems(1,2)
      by (simp add: backoff_def sleep_def transmit_def attempt_event_def transmits_before_Suc)
    have "sendTuyaDatapoint_loop env dp dt d (int m) baseDelay (Suc a)
            (Some (TransportError e)) ?s1 =
        (Inl (thrown (env (n0 + m))), ?s1\<lparr>trace := trace ?s1 @
          concat (map (\<lambda>j. [attempt_event env n0 c dp dt d j, SetTimeout (baseDelay * 2 ^ j)])
             [Suc a..<m]) @ [attempt_event env n0 c dp dt d m],
        transactionID_counter := c + transmits_before env n0 (Suc m),
        attempts_made := n0 + Suc m\<rparr>)"
      using Suc.hyps(2) Suc.prems lt by (intro Suc.hyps(1)) (auto simp add: s1)
    with step show ?thesis
      by (simp add: s1 upt)
  next
    case ClusterMissing
    let ?s1 = "backoff (int m) baseDelay a (cluster_check_fails s)"
    have step: "sendTuyaDatapoint_loop env dp dt d (int m) baseDelay a le s =
        sendTuyaDatapoint_loop env dp dt d (int m) baseDelay (Suc a) (Some ClusterNotOnEndpoint) ?s1"
      using le_max ClusterMissing Suc.prems(1)
      by (simp add: sendTuyaDatapoint_loop.simps [of env dp dt d "int m" baseDelay a])
    have s1: "?s1 = s\<lparr>trace := trace s @
          [attempt_event env n0 c dp dt d a, SetTimeout (baseDelay * 2 ^ a)],
        transactionID_counter := c + transmits_before env n0 (Suc a),
        attempts_made := n0 + Suc a\<rparr>"
      using le_max ClusterMissing Suc.prems(1,2)
      by (simp add: backoff_def sleep_def cluster_check_fails_def attempt_event_def
          transmits_before_Suc)
    have "sendTuyaDatapoint_loop env dp dt d (int m) baseDelay (Suc a)
            (Some ClusterNotOnEndpoint) ?s1 =
        (Inl (thrown (env (n0 + m))), ?s1\<lparr>trace := trace ?s1 @
          concat (map (\<lambda>j. [attempt_event env n0 c dp dt d j, SetTimeout (baseDelay * 2 ^ j)])
             [Suc a..<m]) @ [attempt_event env n0 c dp dt d m],
        transactionID_counter := c + transmits_before env n0 (Suc m),
        attempts_made := n0 + Suc m\<rparr>)"
      using Suc.hyps(2) Suc.prems lt by (intro Suc.hyps(1)) (auto simp add: s1)
    with step show ?thesis
      by (simp add: s1 upt)
  qed
qed

lemma transmits_before_0 [simp]: "transmits_before env n0 0 = 0"
  by (simp add: transmits_before_def)

text \<open>A write whose attempt \<open>k\<close> is the first that does not throw.\<close>

lemma sendTuyaDatapoint_succeeds:
  assumes "int k \<le> maxRetries" and "\<forall>j<k. env (attempts_made s + j) \<noteq> Resolves"
    and "env (attempts_made s + k) = Resolves"
  shows "sendTuyaDatapoint env dp dt d maxRetries baseDelay s =
     (Inr (), s\<lparr>trace := trace s @
          attempts_trace env (attempts_made s) (transactionID_counter s) dp dt d baseDelay k,
        transactionID_counter :=
          transactionID_counter s + transmits_before env (attempts_made s) (Suc k),
        attempts_made := attempts_made s + Suc k\<rparr>)"
  using assms
    loop_exact_success [where s = s and ?n0.0 = "attempts_made s" and a = 0
      and c = "transactionID_counter s" and env = env and k = k and maxRetries = maxRetries
      and dp = dp and dt = dt and d = d and baseDelay = baseDelay and le = None]
  by (simp add: sendTuyaDatapoint_def attempts_trace_def)

text \<open>A write whose \<open>maxRetries + 1\<close> attempts all throw.\<close>

lemma sendTuyaDatapoint_exhausts:
  assumes "\<forall>j\<le>m. env (attempts_made s + j) \<noteq> Resolves"
  shows "sendTuyaDatapoint env dp dt d (int m) baseDelay s =
     (Inl (thrown (env (attempts_made s + m))), s\<lparr>trace := trace s @
          attempts_trace env (attempts_made s) (transactionID_counter s) dp dt d baseDelay m,
        transactionID_counter :=
          transactionID_counter s + transmits_before env (attempts_made s) (Suc m),
        attempts_made := attempts_made s + Suc m\<rparr>)"
  using assms
    loop_exact_exhausted [where s = s and ?n0.0 = "attempts_made s" and a = 0
      and c = "transactionID_counter s" and env = env and m = m
      and dp = dp and dt = dt and d = d and baseDelay = baseDelay and le = None]
  by (simp add: sendTuyaDatapoint_def attempts_trace_def)

lemma step_of_attempt_event [simp]: "step_of (attempt_event env n0 c dp dt d j) = Attempt"
  by (simp add: attempt_event_def)

lemma attempts_trace_schedule:
  "map step_of (attempts_trace env n0 c dp dt d baseDelay k) = schedule baseDelay k"
  by (simp add: attempts_trace_def schedule_def map_concat comp_def)

lemma attempts_trace_last:
  "last (attempts_trace env n0 c dp dt d baseDelay k) = attempt_event env n0 c dp dt d k"
  by (simp add: attempts_trace_def)

text \<open>What the write methods send.\<close>

lemma write_methods:
  "writeBool env dp (JBool b) maxRetries baseDelay s =
     sendTuyaDatapoint env dp 1 [if b then 1 else 0] maxRetries baseDelay s"
  "0 \<le> n \<and> n \<le> 4294967295 \<Longrightarrow>
     writeData32 env dp (JNum n) maxRetries baseDelay s =
       sendTuyaDatapoint env dp 2 (writeUInt32BE n) maxRetries baseDelay s"
  "writeString conv env dp v maxRetries baseDelay s =
     sendTuyaDatapoint env dp 3 (latin1 (js_String conv v)) maxRetries baseDelay s"
  "0 \<le> n \<and> n \<le> 255 \<Longrightarrow>
     writeEnum env dp (JNum n) maxRetries baseDelay s =
       sendTuyaDatapoint env dp 4 [word_of_int n] maxRetries baseDelay s"
  "writeRaw env dp (JBuf buf) maxRetries baseDelay s =
     sendTuyaDatapoint env dp 0 buf maxRetries baseDelay s"
  by (simp_all add: writeBool_def writeData32_def writeString_def writeEnum_def writeRaw_def
      send_payload_def writeBool_payload_def writeData32_payload_def writeString_payload_def
      writeEnum_payload_def writeRaw_payload_def)

lemma writeBool_rejects:
  "(\<forall>b. v \<noteq> JBool b) \<Longrightarrow>
     writeBool env dp v maxRetries baseDelay s = (Inl WriteBoolExpectedBoolean, s)"
  by (cases v) (auto simp add: writeBool_def send_payload_def writeBool_payload_def)

lemma writeData32_rejects:
  "(\<forall>n. v = JNum n \<longrightarrow> n < 0 \<or> 4294967295 < n) \<Longrightarrow>
     writeData32 env dp v maxRetries baseDelay s = (Inl InvalidUint32, s)"
  by (cases v) (auto simp add: writeData32_def send_payload_def writeData32_payload_def)

lemma writeEnum_rejects:
  "(\<forall>n. v = JNum n \<longrightarrow> n < 0 \<or> 255 < n) \<Longrightarrow>
     writeEnum env dp v maxRetries baseDelay s = (Inl InvalidEnum, s)"
  by (cases v) (auto simp add: writeEnum_def send_payload_def writeEnum_payload_def)

lemma writeRaw_rejects:
  "(\<forall>buf. v \<noteq> JBuf buf) \<Longrightarrow>
     writeRaw env dp v maxRetries baseDelay s = (Inl DataMustBeBuffer, s)"
  by (cases v) (simp_all add: writeRaw_def send_payload_def writeRaw_payload_def)


text \<open>
  C1. A write with parameters \<open>maxRetries\<close> and \<open>baseDelay\<close> transmits at most
  \<open>maxRetries + 1\<close> times. An attempt transmits the frame (the datapoint, the
  datatype, the length and the data, with the next transaction number) unless the cluster is
  missing, in which case it throws before transmitting. If attempt \<open>k \<le> maxRetries\<close>
  is the first that does not throw, the write succeeds, and what it did is exactly this:
  attempt 0 at once and, after each failed attempt \<open>j < k\<close>, a wait of
  \<open>baseDelay * 2^j\<close> before attempt \<open>j + 1\<close>; the last thing it did is the
  transmit of attempt \<open>k\<close> that did not throw. If all \<open>maxRetries + 1\<close> attempts
  throw, the write throws the error of the last attempt, after the same schedule of
  \<open>maxRetries + 1\<close> attempts and no wait after the last. Each write method sends its
  datatype number and the Buffer it builds through this loop, and a rejected argument
  throws before any attempt.
\<close>

theorem sendTuyaDatapoint_retries:
  "length (filter is_Datapoint
      (trace (snd (sendTuyaDatapoint env dp dt d maxRetries baseDelay s))))
     \<le> length (filter is_Datapoint (trace s)) + nat (maxRetries + 1)
   \<and> (int k \<le> maxRetries \<and> (\<forall>j<k. env (attempts_made s + j) \<noteq> Resolves)
        \<and> env (attempts_made s + k) = Resolves \<longrightarrow>
      sendTuyaDatapoint env dp dt d maxRetries baseDelay s =
        (Inr (), s\<lparr>trace := trace s @
             attempts_trace env (attempts_made s) (transactionID_counter s) dp dt d baseDelay k,
           transactionID_counter :=
             transactionID_counter s + transmits_before env (attempts_made s) (Suc k),
           attempts_made := attempts_made s + Suc k\<rparr>)
      \<and> last (attempts_trace env (attempts_made s) (transactionID_counter s) dp dt d baseDelay k)
          = Datapoint 0
              ((transactionID_counter s + transmits_before env (attempts_made s) k) mod 256)
              dp dt (length d) d
      \<and> map step_of
            (attempts_trace env (attempts_made s) (transactionID_counter s) dp dt d baseDelay k)
          = schedule baseDelay k
      \<and> fst (sendTuyaDatapoint env dp dt d maxRetries baseDelay s) = Inr ()
      \<and> (\<exists>evs. trace (snd (sendTuyaDatapoint env dp dt d maxRetries baseDelay s)) = trace s @ evs
            \<and> map step_of evs = schedule baseDelay k))
   \<and> (0 \<le> maxRetries \<and> (\<forall>j\<le>nat maxRetries. env (attempts_made s + j) \<noteq> Resolves) \<longrightarrow>
      sendTuyaDatapoint env dp dt d maxRetries baseDelay s =
        (Inl (thrown (env (attempts_made s + nat maxRetries))), s\<lparr>trace := trace s @
             attempts_trace env (attempts_made s) (transactionID_counter s) dp dt d baseDelay
               (nat maxRetries),
           transactionID_counter :=
             transactionID_counter s
               + transmits_before env (attempts_made s) (Suc (nat maxRetries)),
           attempts_made := attempts_made s + Suc (nat maxRetries)\<rparr>)
      \<and> map step_of
            (attempts_trace env (attempts_made s) (transactionID_counter s) dp dt d baseDelay
               (nat maxRetries))
          = schedule baseDelay (nat maxRetries)
      \<and> fst (sendTuyaDatapoint env dp dt d maxRetries baseDelay s) =
        Inl (thrown (env (attempts_made s + nat maxRetries)))
      \<and> (\<exists>evs. trace (snd (sendTuyaDatapoint env dp dt d maxRetries baseDelay s)) = trace s @ evs
            \<and> map step_of evs = schedule baseDelay (nat maxRetries)))
   \<and> writeBool env dp (JBool b) maxRetries baseDelay s =
       sendTuyaDatapoint env dp 1 [if b then 1 else 0] maxRetries baseDelay s
   \<and> (0 \<le> n \<and> n \<le> 4294967295 \<longrightarrow>
        writeData32 env dp (JNum n) maxRetries baseDelay s =
          sendTuyaDatapoint env dp 2 (writeUInt32BE n) maxRetries baseDelay s)
   \<and> writeString conv env dp v maxRetries baseDelay s =
       sendTuyaDatapoint env dp 3 (latin1 (js_String conv v)) maxRetries baseDelay s
   \<and> (0 \<le> n \<and> n \<le> 255 \<longrightarrow>
        writeEnum env dp (JNum n) maxRetries baseDelay s =
          sendTuyaDatapoint env dp 4 [word_of_int n] maxRetries baseDelay s)
   \<and> writeRaw env dp (JBuf buf) maxRetries baseDelay s =
       sendTuyaDatapoint env dp 0 buf maxRetries baseDelay s
   \<and> ((\<forall>b. v \<noteq> JBool b) \<longrightarrow>
        writeBool env dp v maxRetries baseDelay s = (Inl WriteBoolExpectedBoolean, s))
   \<and> ((\<forall>n. v = JNum n \<longrightarrow> n < 0 \<or> 4294967295 < n) \<longrightarrow>
        writeData32 env dp v maxRetries baseDelay s = (Inl InvalidUint32, s))
   \<and> ((\<forall>n. v = JNum n \<longrightarrow> n < 0 \<or> 255 < n) \<longrightarrow>
        writeEnum env dp v maxRetries baseDelay s = (Inl InvalidEnum, s))
   \<and> ((\<forall>buf. v \<noteq> JBuf buf) \<longrightarrow>
        writeRaw env dp v maxRetries baseDelay s = (Inl DataMustBeBuffer, s))"
proof -
  let ?W = "sendTuyaDatapoint env dp dt d maxRetries baseDelay s"
  let ?n0 = "attempts_made s"
  let ?c = "transactionID_counter s"
  have count: "length (filter is_Datapoint (trace (snd ?W)))
     \<le> length (filter is_Datapoint (trace s)) + nat (maxRetries + 1)"
    using loop_transmit_count [of env dp dt d maxRetries baseDelay 0 None s]
    by (simp add: sendTuyaDatapoint_def)
  have ok: "?W = (Inr (), s\<lparr>trace := trace s @ attempts_trace env ?n0 ?c dp dt d baseDelay k,
           transactionID_counter := ?c + transmits_before env ?n0 (Suc k),
           attempts_made := ?n0 + Suc k\<rparr>)
      \<and> last (attempts_trace env ?n0 ?c dp dt d baseDelay k)
          = Datapoint 0 ((?c + transmits_before env ?n0 k) mod 256) dp dt (length d) d
      \<and> map step_of (attempts_trace env ?n0 ?c dp dt d baseDelay k) = schedule baseDelay k
      \<and> fst ?W = Inr ()
      \<and> (\<exists>evs. trace (snd ?W) = trace s @ evs \<and> map step_of evs = schedule baseDelay k)"
    if h: "int k \<le> maxRetries \<and> (\<forall>j<k. env (?n0 + j) \<noteq> Resolves) \<and> env (?n0 + k) = Resolves"
  proof -
    from h have run: "?W = (Inr (), s\<lparr>trace := trace s @ attempts_trace env ?n0 ?c dp dt d baseDelay k,
           transactionID_counter := ?c + transmits_before env ?n0 (Suc k),
           attempts_made := ?n0 + Suc k\<rparr>)"
      by (intro sendTuyaDatapoint_succeeds) simp_all
    from h have lst: "last (attempts_trace env ?n0 ?c dp dt d baseDelay k)
          = Datapoint 0 ((?c + transmits_before env ?n0 k) mod 256) dp dt (length d) d"
      by (simp add: attempts_trace_last attempt_event_def)
    have sch: "map step_of (attempts_trace env ?n0 ?c dp dt d baseDelay k) = schedule baseDelay k"
      by (rule attempts_trace_schedule)
    have "trace (snd ?W) = trace s @ attempts_trace env ?n0 ?c dp dt d baseDelay k"
      unfolding run by simp
    with sch have ex: "\<exists>evs. trace (snd ?W) = trace s @ evs \<and> map step_of evs = schedule baseDelay k"
      by blast
    have "fst ?W = Inr ()"
      unfolding run by simp
    with run lst sch ex show ?thesis by blast
  qed
  have ko: "?W = (Inl (thrown (env (?n0 + nat maxRetries))), s\<lparr>trace := trace s @
             attempts_trace env ?n0 ?c dp dt d baseDelay (nat maxRetries),
           transactionID_counter := ?c + transmits_before env ?n0 (Suc (nat maxRetries)),
           attempts_made := ?n0 + Suc (nat maxRetries)\<rparr>)
      \<and> map step_of (attempts_trace env ?n0 ?c dp dt d baseDelay (nat maxRetries))
          = schedule baseDelay (nat maxRetries)
      \<and> fst ?W = Inl (thrown (env (?n0 + nat maxRetries)))
      \<and> (\<exists>evs. trace (snd ?W) = trace s @ evs
            \<and> map step_of evs = schedule baseDelay (nat maxRetries))"
    if h: "0 \<le> maxRetries \<and> (\<forall>j\<le>nat maxRetries. env (?n0 + j) \<noteq> Resolves)"
  proof -
    from h have m: "maxRetries = int (nat maxRetries)" by simp
    from h have all: "\<forall>j\<le>nat maxRetries. env (?n0 + j) \<noteq> Resolves" by simp
    have run: "?W = (Inl (thrown (env (?n0 + nat maxRetries))), s\<lparr>trace := trace s @
             attempts_trace env ?n0 ?c dp dt d baseDelay (nat maxRetries),
           transactionID_counter := ?c + transmits_before env ?n0 (Suc (nat maxRetries)),
           attempts_made := ?n0 + Suc (nat maxRetries)\<rparr>)"
      using sendTuyaDatapoint_exhausts [OF all, of dp dt d baseDelay] m by simp
    have sch: "map step_of (attempts_trace env ?n0 ?c dp dt d baseDelay (nat maxRetries))
          = schedule baseDelay (nat maxRetries)"
      by (rule attempts_trace_schedule)
    have "trace (snd ?W) = trace s @ attempts_trace env ?n0 ?c dp dt d baseDelay (nat maxRetries)"
      unfolding run by simp
    with sch have ex: "\<exists>evs. trace (snd ?W) = trace s @ evs
        \<and> map step_of evs = schedule baseDelay (nat maxRetries)"
      by blast
    have "fst ?W = Inl (thrown (env (?n0 + nat maxRetries)))"
      unfolding run by simp
    with run sch ex show ?thesis by blast
  qed
  have ok': "int k \<le> maxRetries \<and> (\<forall>j<k. env (?n0 + j) \<noteq> Resolves) \<and> env (?n0 + k) = Resolves
      \<longrightarrow> ?W = (Inr (), s\<lparr>trace := trace s @ attempts_trace env ?n0 ?c dp dt d baseDelay k,
           transactionID_counter := ?c + transmits_before env ?n0 (Suc k),
           attempts_made := ?n0 + Suc k\<rparr>)
      \<and> last (attempts_trace env ?n0 ?c dp dt d baseDelay k)
          = Datapoint 0 ((?c + transmits_before env ?n0 k) mod 256) dp dt (length d) d
      \<and> map step_of (attempts_trace env ?n0 ?c dp dt d baseDelay k) = schedule baseDelay k
      \<and> fst ?W = Inr ()
      \<and> (\<exists>evs. trace (snd ?W) = trace s @ evs \<and> map step_of evs = schedule baseDelay k)"
    using ok by blast
  have ko': "0 \<le> maxRetries \<and> (\<forall>j\<le>nat maxRetries. env (?n0 + j) \<noteq> Resolves)
      \<longrightarrow> ?W = (Inl (thrown (env (?n0 + nat maxRetries))), s\<lparr>trace := trace s @
             attempts_trace env ?n0 ?c dp dt d baseDelay (nat maxRetries),
           transactionID_counter := ?c + transmits_before env ?n0 (Suc (nat maxRetries)),
           attempts_made := ?n0 + Suc (nat maxRetries)\<rparr>)
      \<and> map step_of (attempts_trace env ?n0 ?c dp dt d baseDelay (nat maxRetries))
          = schedule baseDelay (nat maxRetries)
      \<and> fst ?W = Inl (thrown (env (?n0 + nat maxRetries)))
      \<and> (\<exists>evs. trace (snd ?W) = trace s @ evs
            \<and> map step_of evs = schedule baseDelay (nat maxRetries))"
    using ko by blast
  have w1: "writeBool env dp (JBool b) maxRetries baseDelay s =
       sendTuyaDatapoint env dp 1 [if b then 1 else 0] maxRetries baseDelay s"
    by (rule write_methods)
  have w2: "0 \<le> n \<and> n \<le> 4294967295 \<longrightarrow>
        writeData32 env dp (JNum n) maxRetries baseDelay s =
          sendTuyaDatapoint env dp 2 (writeUInt32BE n) maxRetries baseDelay s"
    using write_methods(2) by blast
  have w3: "writeString conv env dp v maxRetries baseDelay s =
       sendTuyaDatapoint env dp 3 (latin1 (js_String conv v)) maxRetries baseDelay s"
    by (rule write_methods)
  have w4: "0 \<le> n \<and> n \<le> 255 \<longrightarrow>
        writeEnum env dp (JNum n) maxRetries baseDelay s =
          sendTuyaDatapoint env dp 4 [word_of_int n] maxRetries baseDelay s"
    using write_methods(4) by blast
  have w5: "writeRaw env dp (JBuf buf) maxRetries baseDelay s =
       sendTuyaDatapoint env dp 0 buf maxRetries baseDelay s"
    by (rule write_methods)
  have r1: "(\<forall>b. v \<noteq> JBool b) \<longrightarrow>
        writeBool env dp v maxRetries baseDelay s = (Inl WriteBoolExpectedBoolean, s)"
    using writeBool_rejects by blast
  have r2: "(\<forall>n. v = JNum n \<longrightarrow> n < 0 \<or> 4294967295 < n) \<longrightarrow>
        writeData32 env dp v maxRetries baseDelay s = (Inl InvalidUint32, s)"
    using writeData32_rejects by blast
  have r3: "(\<forall>n. v = JNum n \<longrightarrow> n < 0 \<or> 255 < n) \<longrightarrow>
        writeEnum env dp v maxRetries baseDelay s = (Inl InvalidEnum, s)"
    using writeEnum_rejects by blast
  have r4: "(\<forall>buf. v \<noteq> JBuf buf) \<longrightarrow>
        writeRaw env dp v maxRetries baseDelay s = (Inl DataMustBeBuffer, s)"
    using writeRaw_rejects by blast
  from count ok' ko' w1 w2 w3 w4 w5 r1 r2 r3 r4 show ?thesis
    by (intro conjI)
qed


text \<open>
  With \<open>maxRetries = 2\<close> and \<open>baseDelay = 300\<close> on a fresh device: a write that
  fails twice and then succeeds transmits three frames, waits 300 ms and 600 ms between
  them, and succeeds; a write whose three attempts all fail does the same and throws the
  error of the third; a write that first finds the cluster missing transmits one frame
  only, 300 ms after the failed check; and \<open>writeBool\<close> of a number throws at once.
\<close>

theorem sendTuyaDatapoint_retries_witness:
  "scripted [Rejects 1, Rejects 2] Resolves 0 \<noteq> Resolves
   \<and> scripted [Rejects 1, Rejects 2] Resolves 1 \<noteq> Resolves
   \<and> scripted [Rejects 1, Rejects 2] Resolves 2 = Resolves
   \<and> sendTuyaDatapoint (scripted [Rejects 1, Rejects 2] Resolves) 1 1 [1] 2 300 fresh_device
       = (Inr (), \<lparr>transactionID_counter = 3, attempts_made = 3,
            trace = [Datapoint 0 0 1 1 1 [1], SetTimeout 300, Datapoint 0 1 1 1 1 [1],
                     SetTimeout 600, Datapoint 0 2 1 1 1 [1]],
            available = True\<rparr>)
   \<and> sendTuyaDatapoint (scripted [Rejects 1, Rejects 2, Rejects 3] Resolves) 1 1 [1] 2 300
         fresh_device
       = (Inl (TransportError 3), \<lparr>transactionID_counter = 3, attempts_made = 3,
            trace = [Datapoint 0 0 1 1 1 [1], SetTimeout 300, Datapoint 0 1 1 1 1 [1],
                     SetTimeout 600, Datapoint 0 2 1 1 1 [1]],
            available = True\<rparr>)
   \<and> sendTuyaDatapoint (scripted [ClusterMissing] Resolves) 1 1 [1] 2 300 fresh_device
       = (Inr (), \<lparr>transactionID_counter = 1, attempts_made = 2,
            trace = [ClusterCheckFailed, SetTimeout 300, Datapoint 0 0 1 1 1 [1]],
            available = True\<rparr>)
   \<and> writeBool (scripted [] Resolves) 7 (JNum 1) 2 300 fresh_device
       = (Inl WriteBoolExpectedBoolean, fresh_device)"
proof -
  let ?ok = "scripted [Rejects 1, Rejects 2] Resolves"
  let ?ko = "scripted [Rejects 1, Rejects 2, Rejects 3] Resolves"
  let ?cm = "scripted [ClusterMissing] Resolves"
  have fresh: "attempts_made fresh_device = 0" "transactionID_counter fresh_device = 0"
    "trace fresh_device = []"
    by (simp_all add: fresh_device_def)
  have ok: "?ok 0 \<noteq> Resolves" "?ok 1 \<noteq> Resolves" "?ok 2 = Resolves"
    by (simp_all add: scripted_def)
  then have hyp_ok: "int 2 \<le> 2 \<and> (\<forall>j<2. ?ok (attempts_made fresh_device + j) \<noteq> Resolves)
      \<and> ?ok (attempts_made fresh_device + 2) = Resolves"
    by (auto simp add: fresh less_Suc_eq numeral_2_eq_2)
  have hyp_ko: "(0::int) \<le> 2 \<and> (\<forall>j\<le>nat 2. ?ko (attempts_made fresh_device + j) \<noteq> Resolves)"
    by (auto simp add: fresh scripted_def le_Suc_eq numeral_2_eq_2)
  have hyp_cm: "int 1 \<le> 2 \<and> (\<forall>j<1. ?cm (attempts_made fresh_device + j) \<noteq> Resolves)
      \<and> ?cm (attempts_made fresh_device + 1) = Resolves"
    by (auto simp add: fresh scripted_def)
  have hyp_wb: "\<forall>b. JNum 1 \<noteq> JBool b"
    by simp
  have tr_ok: "attempts_trace ?ok 0 0 1 1 [1] 300 2 =
      [Datapoint 0 0 1 1 1 [1], SetTimeout 300, Datapoint 0 1 1 1 1 [1],
       SetTimeout 600, Datapoint 0 2 1 1 1 [1]]"
    "transmits_before ?ok 0 (Suc 2) = 3"
    by (simp_all add: attempts_trace_def attempt_event_def transmits_before_def scripted_def
        numeral_2_eq_2 upt_rec)
  have tr_ko: "attempts_trace ?ko 0 0 1 1 [1] 300 (nat 2) =
      [Datapoint 0 0 1 1 1 [1], SetTimeout 300, Datapoint 0 1 1 1 1 [1],
       SetTimeout 600, Datapoint 0 2 1 1 1 [1]]"
    "transmits_before ?ko 0 (Suc (nat 2)) = 3"
    "thrown (?ko (0 + nat 2)) = TransportError 3"
    by (simp_all add: attempts_trace_def attempt_event_def transmits_before_def scripted_def
        numeral_2_eq_2 upt_rec)
  have tr_cm: "attempts_trace ?cm 0 0 1 1 [1] 300 1 =
      [ClusterCheckFailed, SetTimeout 300, Datapoint 0 0 1 1 1 [1]]"
    "transmits_before ?cm 0 (Suc 1) = 1"
    by (simp_all add: attempts_trace_def attempt_event_def transmits_before_def scripted_def
        upt_rec)
  from sendTuyaDatapoint_retries [where env = ?ok and dp = 1 and dt = 1 and d = "[1]"
      and maxRetries = 2 and baseDelay = 300 and s = fresh_device and k = 2] hyp_ok
  have "sendTuyaDatapoint ?ok 1 1 [1] 2 300 fresh_device =
      (Inr (), fresh_device\<lparr>trace := trace fresh_device @
           attempts_trace ?ok (attempts_made fresh_device) (transactionID_counter fresh_device)
             1 1 [1] 300 2,
         transactionID_counter := transactionID_counter fresh_device
           + transmits_before ?ok (attempts_made fresh_device) (Suc 2),
         attempts_made := attempts_made fresh_device + Suc 2\<rparr>)"
    by blast
  then have a: "sendTuyaDatapoint ?ok 1 1 [1] 2 300 fresh_device
       = (Inr (), \<lparr>transactionID_counter = 3, attempts_made = 3,
            trace = [Datapoint 0 0 1 1 1 [1], SetTimeout 300, Datapoint 0 1 1 1 1 [1],
                     SetTimeout 600, Datapoint 0 2 1 1 1 [1]],
            available = True\<rparr>)"
    unfolding fresh tr_ok by (simp add: fresh_device_def)
  from sendTuyaDatapoint_retries [where env = ?ko and dp = 1 and dt = 1 and d = "[1]"
      and maxRetries = 2 and baseDelay = 300 and s = fresh_device] hyp_ko
  have "sendTuyaDatapoint ?ko 1 1 [1] 2 300 fresh_device =
      (Inl (thrown (?ko (attempts_made fresh_device + nat 2))),
       fresh_device\<lparr>trace := trace fresh_device @
           attempts_trace ?ko (attempts_made fresh_device) (transactionID_counter fresh_device)
             1 1 [1] 300 (nat 2),
         transactionID_counter := transactionID_counter fresh_device
           + transmits_before ?ko (attempts_made fresh_device) (Suc (nat 2)),
         attempts_made := attempts_made fresh_device + Suc (nat 2)\<rparr>)"
    by blast
  then have b: "sendTuyaDatapoint ?ko 1 1 [1] 2 300 fresh_device
       = (Inl (TransportError 3), \<lparr>transactionID_counter = 3, attempts_made = 3,
            trace = [Datapoint 0 0 1 1 1 [1], SetTimeout 300, Datapoint 0 1 1 1 1 [1],
                     SetTimeout 600, Datapoint 0 2 1 1 1 [1]],
            available = True\<rparr>)"
    unfolding fresh tr_ko by (simp add: fresh_device_def)
  from sendTuyaDatapoint_retries [where env = ?cm and dp = 1 and dt = 1 and d = "[1]"
      and maxRetries = 2 and baseDelay = 300 and s = fresh_device and k = 1] hyp_cm
  have "sendTuyaDatapoint ?cm 1 1 [1] 2 300 fresh_device =
      (Inr (), fresh_device\<lparr>trace := trace fresh_device @
           attempts_trace ?cm (attempts_made fresh_device) (transactionID_counter fresh_device)
             1 1 [1] 300 1,
         transactionID_counter := transactionID_counter fresh_device
           + transmits_before ?cm (attempts_made fresh_device) (Suc 1),
         attempts_made := attempts_made fresh_device + Suc 1\<rparr>)"
    by blast
  then have c: "sendTuyaDatapoint ?cm 1 1 [1] 2 300 fresh_device
       = (Inr (), \<lparr>transactionID_counter = 1, attempts_made = 2,
            trace = [ClusterCheckFailed, SetTimeout 300, Datapoint 0 0 1 1 1 [1]],
            available = True\<rparr>)"
    unfolding fresh tr_cm by (simp add: fresh_device_def)
  from sendTuyaDatapoint_retries [where env = "scripted [] Resolves" and dp = 7
      and v = "JNum 1" and maxRetries = 2 and baseDelay = 300 and s = fresh_device] hyp_wb
  have d: "writeBool (scripted [] Resolves) 7 (JNum 1) 2 300 fresh_device
       = (Inl WriteBoolExpectedBoolean, fresh_device)"
    by blast
  show ?thesis
    by (intro conjI) (rule ok a b c d)+
qed

subsection \<open>A command submitted while another is in flight\<close>




subsection \<open>Bulk send on an unavailable device\<close>

text \<open>
  C9. If the device is unavailable when a bulk send is submitted, nothing is attempted:
  the device state, with its trace of transmissions, is unchanged, and the result list has
  one entry per command, each failed with the unavailability error.
\<close>

theorem sendBulkCommands_unavailable:
  assumes "\<not> available s"
  shows "sendBulkCommands conv env commands delayBetween s = (map unavailable_entry commands, s)
     \<and> map res_dp (fst (sendBulkCommands conv env commands delayBetween s)) = map cdp commands
     \<and> list_all (\<lambda>r. \<not> res_success r \<and> res_error r = Some DeviceUnavailable)
         (fst (sendBulkCommands conv env commands delayBetween s))"
  using assms
  by (simp add: sendBulkCommands_def unavailable_entry_def list_all_iff comp_def)

text \<open>A batch of two commands on an unavailable device.\<close>

theorem sendBulkCommands_unavailable_witness:
  "\<not> available (fresh_device\<lparr>available := False\<rparr>)
   \<and> sendBulkCommands (\<lambda>v. []) (scripted [] Resolves)
        [\<lparr>ctype = ''bool'', cdp = 1, cvalue = JBool True\<rparr>,
         \<lparr>ctype = ''enum'', cdp = 14, cvalue = JNum 2\<rparr>] 200 (fresh_device\<lparr>available := False\<rparr>)
       = ([\<lparr>res_success = False, res_dp = 1, res_error = Some DeviceUnavailable\<rparr>,
           \<lparr>res_success = False, res_dp = 14, res_error = Some DeviceUnavailable\<rparr>],
          fresh_device\<lparr>available := False\<rparr>)"
proof -
  have h: "\<not> available (fresh_device\<lparr>available := False\<rparr>)"
    by simp
  from sendBulkCommands_unavailable [OF h, of "\<lambda>v. []" "scripted [] Resolves"
      "[\<lparr>ctype = ''bool'', cdp = 1, cvalue = JBool True\<rparr>,
        \<lparr>ctype = ''enum'', cdp = 14, cvalue = JNum 2\<rparr>]" 200] h
  show ?thesis
    by (simp add: unavailable_entry_def)
qed

subsection \<open>Time synchronisation\<close>








section \<open>Properties of the availability manager\<close>

subsection \<open>The cascades change availability and the log, nothing else\<close>

lemma lose_each_fields [simp]:
  "this_device (lose_each i rs m) = this_device m"
  "driver_devices (lose_each i rs m) = driver_devices m"
  "setting (lose_each i rs m) = setting m"
  "last_seen_ts (lose_each i rs m) = last_seen_ts m"
  "getStoreValue_throws (lose_each i rs m) = getStoreValue_throws m"
  "timeout (lose_each i rs m) = timeout m"
  by (induction rs arbitrary: m) (simp_all add: set_unavailable_def)

lemma restore_each_fields [simp]:
  "this_device (restore_each rs m) = this_device m"
  "driver_devices (restore_each rs m) = driver_devices m"
  "setting (restore_each rs m) = setting m"
  "last_seen_ts (restore_each rs m) = last_seen_ts m"
  "getStoreValue_throws (restore_each rs m) = getStoreValue_throws m"
  "timeout (restore_each rs m) = timeout m"
  by (induction rs arbitrary: m) (simp_all add: set_available_def)

lemma lose_each_available:
  "dev_available (heap (lose_each i rs m) r) = (dev_available (heap m r) \<and> r \<notin> set rs)"
  by (induction rs arbitrary: m) (auto simp add: set_unavailable_def)

lemma restore_each_available:
  "dev_available (heap (restore_each rs m) r) = (dev_available (heap m r) \<or> r \<in> set rs)"
  by (induction rs arbitrary: m) (auto simp add: set_available_def)

lemma lose_each_getData: "getData (heap (lose_each i rs m) r) = getData (heap m r)"
  by (induction rs arbitrary: m) (auto simp add: set_unavailable_def)

lemma restore_each_getData: "getData (heap (restore_each rs m) r) = getData (heap m r)"
  by (induction rs arbitrary: m) (auto simp add: set_available_def)

lemma lose_each_unavailable_heap:
  "\<forall>r\<in>set rs. \<not> dev_available (heap m r) \<Longrightarrow> lose_each i rs m = m"
  by (induction rs arbitrary: m) simp_all

lemma restore_each_log:
  "\<exists>evs. log (restore_each rs m) = log m @ evs \<and> filter is_CallSetUnavailable evs = []"
proof (induction rs arbitrary: m)
  case Nil
  show ?case by simp
next
  case (Cons r rs)
  let ?m1 = "if \<not> dev_available (heap m r) then set_available r m else m"
  from Cons.IH [of ?m1] obtain evs where
    "log (restore_each rs ?m1) = log ?m1 @ evs" "filter is_CallSetUnavailable evs = []"
    by blast
  moreover have "\<exists>evs1. log ?m1 = log m @ evs1 \<and> filter is_CallSetUnavailable evs1 = []"
    by (simp add: set_available_def)
  ultimately show ?case by auto
qed

subsection \<open>Sibling resolution\<close>

lemma getSiblings_cong:
  assumes "this_device m' = this_device m" and "driver_devices m' = driver_devices m"
    and "\<And>r. getData (heap m' r) = getData (heap m r)"
  shows "getSiblings m' = getSiblings m"
  using assms
  by (simp add: getSiblings_def by_ieee_def by_token_def
      split: getData_result.split option.split)

lemma getSiblings_resolves: "set (getSiblings m) = sibling_set m"
proof (cases "getData (heap m (this_device m))")
  case GetDataThrows
  then show ?thesis
    by (simp add: getSiblings_def sibling_set_def sharing_ieee_def sharing_token_def
        all_devices_def)
next
  case GetDataNull
  then show ?thesis
    by (simp add: getSiblings_def sibling_set_def sharing_ieee_def sharing_token_def
        all_devices_def my_data_def by_ieee_def by_token_def split: option.split)
next
  case (GetData dd)
  show ?thesis
  proof (cases "driver_devices m")
    case None
    with GetData show ?thesis
      by (simp add: getSiblings_def sibling_set_def sharing_ieee_def sharing_token_def
          all_devices_def)
  next
    case (Some ds)
    define I where "I = filter (\<lambda>r. ieee_is (ieeeAddress dd) (heap m r)) ds"
    define T where "T = filter (\<lambda>r. token_is (token dd) (heap m r)) ds"
    have i: "sharing_ieee m = (if truthy_string (ieeeAddress dd) then set I else {})"
      using GetData Some by (auto simp add: sharing_ieee_def all_devices_def my_data_def I_def)
    have t: "sharing_token m = (if truthy_string (token dd) then set T else {})"
      using GetData Some by (auto simp add: sharing_token_def all_devices_def my_data_def T_def)
    have g: "getSiblings m =
        (if truthy_string (ieeeAddress dd) \<and> I \<noteq> [] then I
         else if truthy_string (token dd) \<and> T \<noteq> [] then T else [this_device m])"
      using GetData Some by (simp add: getSiblings_def by_ieee_def by_token_def I_def T_def)
    show ?thesis
      unfolding g sibling_set_def i t by simp
  qed
qed


lemma getSiblings_log [simp]: "getSiblings (m\<lparr>log := l\<rparr>) = getSiblings m"
  by (rule getSiblings_cong) simp_all

lemma getSiblings_last_seen [simp]: "getSiblings (m\<lparr>last_seen_ts := t\<rparr>) = getSiblings m"
  by (rule getSiblings_cong) simp_all

lemma sibling_set_log [simp]: "sibling_set (m\<lparr>log := l\<rparr>) = sibling_set m"
  using getSiblings_resolves [of "m\<lparr>log := l\<rparr>"] getSiblings_resolves [of m] by simp

lemma sibling_set_last_seen [simp]: "sibling_set (m\<lparr>last_seen_ts := t\<rparr>) = sibling_set m"
  using getSiblings_resolves [of "m\<lparr>last_seen_ts := t\<rparr>"] getSiblings_resolves [of m] by simp

lemma markAllUnavailable_available:
  "dev_available (heap (markAllUnavailable i m) r) =
     (dev_available (heap m r) \<and> r \<notin> sibling_set m)"
  by (simp add: markAllUnavailable_def lose_each_available getSiblings_resolves)

lemma markAllAvailable_available:
  "dev_available (heap (markAllAvailable m) r) = (dev_available (heap m r) \<or> r \<in> sibling_set m)"
  by (simp add: markAllAvailable_def restore_each_available getSiblings_resolves)

text \<open>A tick that finds the timeout exceeded, and an activity mark on an unavailable node.\<close>

lemma watchdog_tick_timeout:
  assumes "isEnabled m" and "read_last_seen m = Some t" and "t \<noteq> 0"
    and "timeout m < now - t" and "dev_available (heap m (this_device m))"
  shows "dev_available (heap (watchdog_tick now m) r) =
     (dev_available (heap m r) \<and> r \<notin> sibling_set m)"
  using assms
  by (simp add: watchdog_tick_def Let_def markAllUnavailable_available)

lemma markAlive_restores:
  assumes "\<not> dev_available (heap m (this_device m))"
  shows "dev_available (heap (markAlive now m) r) =
     (dev_available (heap m r) \<or> r \<in> sibling_set m)"
  using assms
  by (simp add: markAlive_def Let_def markAllAvailable_available)

text \<open>
  C6. Both cascades act on exactly the resolved sibling set: the devices of the driver
  that share the device's hardware address if there are any, else those that share its
  secondary token if there are any, else the device alone. Marking unavailable (by the
  cascade itself, or by a watchdog tick that finds the timeout exceeded) makes every
  device of the set unavailable and leaves every other device as it was; restoring (by the
  cascade, or by an activity mark on an unavailable node) makes every device of the set
  available and leaves every other device as it was.
\<close>

theorem cascade_on_sibling_set:
  "set (getSiblings m) = sibling_set m
   \<and> dev_available (heap (markAllUnavailable i m) r) =
       (dev_available (heap m r) \<and> r \<notin> sibling_set m)
   \<and> dev_available (heap (markAllAvailable m) r) =
       (dev_available (heap m r) \<or> r \<in> sibling_set m)
   \<and> (isEnabled m \<and> read_last_seen m = Some t \<and> t \<noteq> 0 \<and> timeout m < now - t
        \<and> dev_available (heap m (this_device m)) \<longrightarrow>
      dev_available (heap (watchdog_tick now m) r) =
        (dev_available (heap m r) \<and> r \<notin> sibling_set m))
   \<and> (\<not> dev_available (heap m (this_device m)) \<longrightarrow>
      dev_available (heap (markAlive now m) r) =
        (dev_available (heap m r) \<or> r \<in> sibling_set m))"
  using getSiblings_resolves [of m] markAllUnavailable_available [of i m r]
    markAllAvailable_available [of m r] watchdog_tick_timeout [of m t now r]
    markAlive_restores [of m now r]
  by blast

text \<open>
  Three virtual devices sharing one hardware address: a timeout marks all three
  unavailable and leaves a fourth device alone, and an activity mark restores all three.
\<close>

theorem cascade_on_sibling_set_witness:
  "isEnabled (markAlive 1 three_gang)
   \<and> read_last_seen (markAlive 1 three_gang) = Some 1
   \<and> timeout (markAlive 1 three_gang) < 600002 - 1
   \<and> dev_available (heap (markAlive 1 three_gang) (this_device (markAlive 1 three_gang)))
   \<and> sibling_set (markAlive 1 three_gang) = {0, 1, 2}
   \<and> \<not> dev_available (heap (watchdog_tick 600002 (markAlive 1 three_gang)) 0)
   \<and> \<not> dev_available (heap (watchdog_tick 600002 (markAlive 1 three_gang)) 1)
   \<and> \<not> dev_available (heap (watchdog_tick 600002 (markAlive 1 three_gang)) 2)
   \<and> dev_available (heap (watchdog_tick 600002 (markAlive 1 three_gang)) 3)
   \<and> dev_available (heap (markAlive 600003 (watchdog_tick 600002 (markAlive 1 three_gang))) 0)
   \<and> dev_available (heap (markAlive 600003 (watchdog_tick 600002 (markAlive 1 three_gang))) 1)
   \<and> dev_available (heap (markAlive 600003 (watchdog_tick 600002 (markAlive 1 three_gang))) 2)"
proof -
  define M1 where "M1 = markAlive 1 three_gang"
  define M2 where "M2 = watchdog_tick 600002 M1"
  have M1: "M1 = three_gang\<lparr>last_seen_ts := Some 1\<rparr>"
    by (simp add: M1_def markAlive_def three_gang_def)
  have h1: "isEnabled M1" "read_last_seen M1 = Some 1" "timeout M1 < 600002 - 1"
    "dev_available (heap M1 (this_device M1))"
    by (simp_all add: M1 three_gang_def isEnabled_def read_last_seen_def)
  have avail1: "dev_available (heap M1 r)" for r
    by (simp add: M1 three_gang_def)
  have sib1: "sibling_set M1 = {0, 1, 2}"
    using cascade_on_sibling_set [of M1]
    by (simp add: M1 three_gang_def getSiblings_def by_ieee_def gang_data_def insert_commute)
  have tick: "dev_available (heap M2 r) = (r \<notin> {0, 1, 2})" for r
    using cascade_on_sibling_set [where m = M1 and r = r and t = 1 and now = 600002] h1 avail1 sib1
    by (simp add: M2_def)
  have self2: "this_device M2 = 0"
    by (simp add: M2_def M1 watchdog_tick_def read_last_seen_def isEnabled_def Let_def
        markAllUnavailable_def three_gang_def)
  have sib2: "sibling_set M2 = sibling_set M1"
  proof -
    have "getSiblings M2 = getSiblings M1"
      by (rule getSiblings_cong)
        (simp_all add: M2_def M1 watchdog_tick_def read_last_seen_def isEnabled_def Let_def
          markAllUnavailable_def three_gang_def lose_each_getData)
    then show ?thesis
      using getSiblings_resolves [of M1] getSiblings_resolves [of M2] by simp
  qed
  have act: "dev_available (heap (markAlive 600003 M2) r) = (r \<notin> {0, 1, 2} \<or> r \<in> {0, 1, 2})"
    for r
    using cascade_on_sibling_set [where m = M2 and r = r and now = 600003] tick [of 0] tick [of r]
      self2 sib1 sib2
    by simp
  from h1 sib1 tick [of 0] tick [of 1] tick [of 2] tick [of 3] act [of 0] act [of 1] act [of 2]
  show ?thesis
    by (simp add: M1_def M2_def)
qed

subsection \<open>The watchdog tick\<close>



lemma watchdog_tick_quiet:
  assumes "\<not> (isEnabled m \<and> (\<exists>t. read_last_seen m = Some t \<and> t \<noteq> 0 \<and> timeout m < now - t)
      \<and> dev_available (heap m (this_device m)))"
  shows "heap (watchdog_tick now m) = heap m
     \<and> (log (watchdog_tick now m) = log m \<or> (\<exists>i. log (watchdog_tick now m) = log m @ [LogIdle i]))
     \<and> (last_seen_ts (watchdog_tick now m) = last_seen_ts m
          \<or> last_seen_ts (watchdog_tick now m) = Some now)
     \<and> this_device (watchdog_tick now m) = this_device m
     \<and> driver_devices (watchdog_tick now m) = driver_devices m
     \<and> setting (watchdog_tick now m) = setting m
     \<and> getStoreValue_throws (watchdog_tick now m) = getStoreValue_throws m
     \<and> timeout (watchdog_tick now m) = timeout m"
  using assms
  by (cases "read_last_seen m") (auto simp add: watchdog_tick_def Let_def)

lemma markAlive_fields:
  "last_seen_ts (markAlive now m) = Some now"
  "this_device (markAlive now m) = this_device m"
  "driver_devices (markAlive now m) = driver_devices m"
  "setting (markAlive now m) = setting m"
  "getStoreValue_throws (markAlive now m) = getStoreValue_throws m"
  "timeout (markAlive now m) = timeout m"
  by (simp_all add: markAlive_def Let_def markAllAvailable_def)

lemma markAlive_available:
  "dev_available (heap (markAlive now m) r) =
     (dev_available (heap m r)
        \<or> (\<not> dev_available (heap m (this_device m)) \<and> r \<in> sibling_set m))"
  by (simp add: markAlive_def Let_def markAllAvailable_available)


lemma markAlive_log:
  "filter is_CallSetUnavailable (log (markAlive now m)) = filter is_CallSetUnavailable (log m)"
proof (cases "dev_available (heap m (this_device m))")
  case True
  then show ?thesis by (simp add: markAlive_def)
next
  case False
  let ?m1 = "m\<lparr>last_seen_ts := Some now, log := log m @ [LogRestoring]\<rparr>"
  from restore_each_log [of "getSiblings ?m1" ?m1] obtain evs where
    "log (restore_each (getSiblings ?m1) ?m1) = log ?m1 @ evs"
    "filter is_CallSetUnavailable evs = []"
    by blast
  with False show ?thesis
    by (simp add: markAlive_def Let_def markAllAvailable_def)
qed



subsection \<open>The first tick of a node without history\<close>

lemma occur_in_grace:
  assumes "t0 \<le> clock_of e" and "clock_of e \<le> t0 + timeout m"
    and "\<And>t. last_seen_ts m = Some t \<Longrightarrow> t = 0 \<or> t0 \<le> t"
  shows "filter is_CallSetUnavailable (log (occur e m)) = filter is_CallSetUnavailable (log m)
     \<and> (\<forall>r. dev_available (heap m r) \<longrightarrow> dev_available (heap (occur e m) r))
     \<and> timeout (occur e m) = timeout m
     \<and> (\<forall>t. last_seen_ts (occur e m) = Some t \<longrightarrow> t = 0 \<or> t0 \<le> t)"
proof (cases e)
  case (Activity now)
  with assms(1) show ?thesis
    by (simp add: markAlive_log markAlive_fields markAlive_available)
next
  case (Tick now)
  have "\<not> (isEnabled m \<and> (\<exists>t. read_last_seen m = Some t \<and> t \<noteq> 0 \<and> timeout m < now - t)
      \<and> dev_available (heap m (this_device m)))"
  proof
    assume "isEnabled m \<and> (\<exists>t. read_last_seen m = Some t \<and> t \<noteq> 0 \<and> timeout m < now - t)
      \<and> dev_available (heap m (this_device m))"
    then obtain t where t: "read_last_seen m = Some t" "t \<noteq> 0" "timeout m < now - t"
      by blast
    then have "last_seen_ts m = Some t"
      by (simp add: read_last_seen_def split: if_splits)
    with assms(3) t have "t0 \<le> t" by blast
    with t(3) assms(2) Tick show False by simp
  qed
  from watchdog_tick_quiet [OF this] have
    hp: "heap (watchdog_tick now m) = heap m"
    and lg: "log (watchdog_tick now m) = log m
       \<or> (\<exists>i. log (watchdog_tick now m) = log m @ [LogIdle i])"
    and ls: "last_seen_ts (watchdog_tick now m) = last_seen_ts m
       \<or> last_seen_ts (watchdog_tick now m) = Some now"
    and tm: "timeout (watchdog_tick now m) = timeout m"
    by simp_all
  from lg have "filter is_CallSetUnavailable (log (watchdog_tick now m))
      = filter is_CallSetUnavailable (log m)"
    by auto
  moreover from ls assms(1,3) Tick
  have "\<forall>t. last_seen_ts (watchdog_tick now m) = Some t \<longrightarrow> t = 0 \<or> t0 \<le> t"
    by auto
  ultimately show ?thesis
    using Tick hp tm by simp
qed

lemma run_in_grace:
  assumes "list_all (\<lambda>e. t0 \<le> clock_of e \<and> clock_of e \<le> t0 + timeout m) es"
    and "\<And>t. last_seen_ts m = Some t \<Longrightarrow> t = 0 \<or> t0 \<le> t"
  shows "filter is_CallSetUnavailable (log (run es m)) = filter is_CallSetUnavailable (log m)
     \<and> (\<forall>r. dev_available (heap m r) \<longrightarrow> dev_available (heap (run es m) r))"
  using assms
proof (induction es arbitrary: m)
  case Nil
  show ?case by simp
next
  case (Cons e es)
  from Cons.prems(1) have e: "t0 \<le> clock_of e" "clock_of e \<le> t0 + timeout m"
    and es: "list_all (\<lambda>e. t0 \<le> clock_of e \<and> clock_of e \<le> t0 + timeout m) es"
    by simp_all
  from occur_in_grace [OF e Cons.prems(2)] have
    lg: "filter is_CallSetUnavailable (log (occur e m)) = filter is_CallSetUnavailable (log m)"
    and av: "\<And>r. dev_available (heap m r) \<Longrightarrow> dev_available (heap (occur e m) r)"
    and tm: "timeout (occur e m) = timeout m"
    and ls: "\<And>t. last_seen_ts (occur e m) = Some t \<Longrightarrow> t = 0 \<or> t0 \<le> t"
    by simp_all
  from es tm have es': "list_all (\<lambda>e'. t0 \<le> clock_of e' \<and> clock_of e' \<le> t0 + timeout (occur e m)) es"
    by simp
  from Cons.IH [OF es' ls] lg av show ?case by simp
qed

text \<open>
  C10. On a watchdog tick at clock \<open>t0\<close> with monitoring enabled and no last-seen
  timestamp to read, the tracker stores \<open>t0\<close> as the last-seen timestamp and changes
  nothing else, so it makes no availability transition. From then on, whatever ticks and
  activity marks occur at clock values from \<open>t0\<close> up to \<open>t0 + timeout\<close>,
  \<open>setUnavailable\<close> is never called and no available device becomes unavailable.
\<close>

theorem first_tick_without_history:
  assumes "isEnabled m" and "\<not> truthy_number (read_last_seen m)"
  shows "watchdog_tick t0 m = m\<lparr>last_seen_ts := Some t0\<rparr>
     \<and> (list_all (\<lambda>e. t0 \<le> clock_of e \<and> clock_of e \<le> t0 + timeout m) es \<longrightarrow>
        filter is_CallSetUnavailable (log (run es (watchdog_tick t0 m)))
          = filter is_CallSetUnavailable (log m)
        \<and> (\<forall>r. dev_available (heap m r) \<longrightarrow>
              dev_available (heap (run es (watchdog_tick t0 m)) r)))"
proof -
  have first: "watchdog_tick t0 m = m\<lparr>last_seen_ts := Some t0\<rparr>"
    using assms by (cases "read_last_seen m") (simp_all add: watchdog_tick_def)
  have inv: "\<And>t. last_seen_ts (m\<lparr>last_seen_ts := Some t0\<rparr>) = Some t \<Longrightarrow> t = 0 \<or> t0 \<le> t"
    by simp
  have "filter is_CallSetUnavailable (log (run es (m\<lparr>last_seen_ts := Some t0\<rparr>)))
          = filter is_CallSetUnavailable (log m)
        \<and> (\<forall>r. dev_available (heap m r) \<longrightarrow>
              dev_available (heap (run es (m\<lparr>last_seen_ts := Some t0\<rparr>)) r))"
    if "list_all (\<lambda>e. t0 \<le> clock_of e \<and> clock_of e \<le> t0 + timeout m) es"
  proof -
    from that have win: "list_all (\<lambda>e. t0 \<le> clock_of e
        \<and> clock_of e \<le> t0 + timeout (m\<lparr>last_seen_ts := Some t0\<rparr>)) es"
      by simp
    from run_in_grace [OF win inv] show ?thesis by simp
  qed
  with first show ?thesis by simp
qed

text \<open>
  The three-gang node, first seen by a tick at clock 1000: ticks up to clock 601000 leave
  it available; a tick at 601001 does not.
\<close>

theorem first_tick_without_history_witness:
  "isEnabled three_gang \<and> \<not> truthy_number (read_last_seen three_gang)
   \<and> watchdog_tick 1000 three_gang = three_gang\<lparr>last_seen_ts := Some 1000\<rparr>
   \<and> list_all (\<lambda>e. 1000 \<le> clock_of e \<and> clock_of e \<le> 1000 + timeout three_gang)
        [Tick 61000, Tick 601000]
   \<and> filter is_CallSetUnavailable
        (log (run [Tick 61000, Tick 601000] (watchdog_tick 1000 three_gang))) = []
   \<and> dev_available (heap (run [Tick 61000, Tick 601000] (watchdog_tick 1000 three_gang)) 0)
   \<and> \<not> dev_available (heap (run [Tick 61000, Tick 601001] (watchdog_tick 1000 three_gang)) 0)"
proof -
  have h: "isEnabled three_gang" "\<not> truthy_number (read_last_seen three_gang)"
    by (simp_all add: isEnabled_def read_last_seen_def three_gang_def)
  have w: "list_all (\<lambda>e. 1000 \<le> clock_of e \<and> clock_of e \<le> 1000 + timeout three_gang)
        [Tick 61000, Tick 601000]"
    by (simp add: three_gang_def)
  have a: "dev_available (heap three_gang 0)" "log three_gang = []"
    by (simp_all add: three_gang_def)
  have late: "\<not> dev_available (heap (run [Tick 61000, Tick 601001] (watchdog_tick 1000 three_gang)) 0)"
    by (simp add: three_gang_def watchdog_tick_def isEnabled_def read_last_seen_def
        idle_minutes_def Let_def markAllUnavailable_def getSiblings_def by_ieee_def gang_data_def
        set_unavailable_def)
  from first_tick_without_history [OF h, of 1000 "[Tick 61000, Tick 601000]"] w
  have first: "watchdog_tick 1000 three_gang = three_gang\<lparr>last_seen_ts := Some 1000\<rparr>"
    and quiet: "filter is_CallSetUnavailable
        (log (run [Tick 61000, Tick 601000] (watchdog_tick 1000 three_gang)))
          = filter is_CallSetUnavailable (log three_gang)"
    and keep: "dev_available (heap three_gang 0) \<longrightarrow>
        dev_available (heap (run [Tick 61000, Tick 601000] (watchdog_tick 1000 three_gang)) 0)"
    by blast+
  from h w first quiet keep a late show ?thesis
    by (simp only: simp_thms filter.simps)
qed

section \<open>Properties of the bulk sender\<close>

lemma loop_trace_extends:
  "\<exists>evs. trace (snd (sendTuyaDatapoint_loop env dp dt d maxRetries baseDelay a le s)) = trace s @ evs"
proof (induction env dp dt d maxRetries baseDelay a le s rule: sendTuyaDatapoint_loop.induct)
  case (1 env dp dt d maxRetries baseDelay a le s)
  show ?case
  proof (cases "int a \<le> maxRetries")
    case False
    then show ?thesis
      by (simp add: sendTuyaDatapoint_loop.simps [of env dp dt d maxRetries baseDelay a]
          split: option.split)
  next
    case True
    show ?thesis
    proof (cases "env (attempts_made s)")
      case Resolves
      with True show ?thesis
        by (simp add: sendTuyaDatapoint_loop.simps [of env dp dt d maxRetries baseDelay a])
    next
      case (Rejects e)
      with True "1.IH"(2) [OF True Rejects] show ?thesis
        by (auto simp add: sendTuyaDatapoint_loop.simps [of env dp dt d maxRetries baseDelay a]
            backoff_fields)
    next
      case ClusterMissing
      with True "1.IH"(1) [OF True ClusterMissing] show ?thesis
        by (auto simp add: sendTuyaDatapoint_loop.simps [of env dp dt d maxRetries baseDelay a]
            backoff_fields)
    qed
  qed
qed

lemma send_payload_trace_extends:
  "\<exists>evs. trace (snd (send_payload env dp dt p maxRetries baseDelay s)) = trace s @ evs"
  using loop_trace_extends [of env dp dt _ maxRetries baseDelay 0 None s]
  by (cases p) (simp_all add: send_payload_def sendTuyaDatapoint_def)

lemma run_command_trace_extends:
  "\<exists>evs. trace (snd (run_command conv env c s)) = trace s @ evs"
  by (simp add: run_command_def writeBool_def writeEnum_def writeData32_def writeString_def
      writeRaw_def send_payload_trace_extends)

text \<open>The two ways one iteration of the bulk loop goes.\<close>

lemma bulk_loop_aborts:
  assumes "2 \<le> f"
  shows "bulk_loop conv env d f (c # rest) s =
     (aborted_entry c # fst (bulk_loop conv env d f rest s), snd (bulk_loop conv env d f rest s))"
  using assms by (simp split: prod.split)

lemma bulk_loop_runs:
  assumes "f < 2"
  shows "bulk_loop conv env d f (c # rest) s =
     (entry_of c (fst (run_command conv env c s)) #
        fst (bulk_loop conv env d
              (case fst (run_command conv env c s) of Inr u \<Rightarrow> 0 | Inl e \<Rightarrow> Suc f) rest
              (if rest \<noteq> [] then sleep d (snd (run_command conv env c s))
               else snd (run_command conv env c s))),
      snd (bulk_loop conv env d
              (case fst (run_command conv env c s) of Inr u \<Rightarrow> 0 | Inl e \<Rightarrow> Suc f) rest
              (if rest \<noteq> [] then sleep d (snd (run_command conv env c s))
               else snd (run_command conv env c s))))"
  using assms by (simp split: prod.split)

declare bulk_loop.simps(2) [simp del]

lemma entry_of_fields [simp]:
  "res_dp (entry_of c r) = cdp c"
  "res_error (entry_of c r) \<noteq> Some AbortedConsecutiveFailures"
  "res_success (entry_of c (Inl e)) = False"
  "res_success (entry_of c (Inr u)) = True"
  "res_error (entry_of c (Inl e)) = Some (Thrown e)"
  "res_error (entry_of c (Inr u)) = None"
  by (cases r; simp add: entry_of_def)+

lemma entry_of_success: "res_success (entry_of c r) = (res_error (entry_of c r) = None)"
  by (cases r) simp_all

lemma aborted_entry_fields [simp]:
  "res_dp (aborted_entry c) = cdp c"
  "res_error (aborted_entry c) = Some AbortedConsecutiveFailures"
  "res_success (aborted_entry c) = False"
  by (simp_all add: aborted_entry_def)

lemma bulk_loop_all_aborted:
  "2 \<le> f \<Longrightarrow> bulk_loop conv env d f cs s = (map aborted_entry cs, s)"
  by (induction cs) (simp_all add: bulk_loop_aborts)

lemma bulk_loop_dps: "map res_dp (fst (bulk_loop conv env d f cs s)) = map cdp cs"
proof (induction cs arbitrary: f s)
  case Nil
  show ?case by simp
next
  case (Cons c cs)
  show ?case
  proof (cases "2 \<le> f")
    case True
    then show ?thesis by (simp add: bulk_loop_all_aborted comp_def)
  next
    case False
    then have "f < 2" by simp
    then show ?thesis by (simp add: bulk_loop_runs Cons.IH)
  qed
qed

lemma bulk_loop_length: "length (fst (bulk_loop conv env d f cs s)) = length cs"
  using bulk_loop_dps [of conv env d f cs s] by (metis length_map)

lemma bulk_loop_entries:
  "list_all (\<lambda>r. res_success r = (res_error r = None)) (fst (bulk_loop conv env d f cs s))"
proof (induction cs arbitrary: f s)
  case Nil
  show ?case by simp
next
  case (Cons c cs)
  show ?case
  proof (cases "2 \<le> f")
    case True
    then show ?thesis by (simp add: bulk_loop_all_aborted list_all_iff)
  next
    case False
    then have "f < 2" by simp
    then show ?thesis by (simp add: bulk_loop_runs Cons.IH entry_of_success)
  qed
qed

lemma bulk_loop_trace_extends:
  "\<exists>evs. trace (snd (bulk_loop conv env d f cs s)) = trace s @ evs"
proof (induction cs arbitrary: f s)
  case Nil
  show ?case by simp
next
  case (Cons c cs)
  show ?case
  proof (cases "2 \<le> f")
    case True
    then show ?thesis by (simp add: bulk_loop_all_aborted)
  next
    case False
    then have f: "f < 2" by simp
    let ?r = "run_command conv env c s"
    let ?f' = "case fst ?r of Inr u \<Rightarrow> 0 | Inl e \<Rightarrow> Suc f"
    let ?s' = "if cs \<noteq> [] then sleep d (snd ?r) else snd ?r"
    from run_command_trace_extends [of conv env c s] obtain e1 where
      "trace (snd ?r) = trace s @ e1" by blast
    then have "\<exists>e2. trace ?s' = trace s @ e2" by simp
    then obtain e2 where e2: "trace ?s' = trace s @ e2" by blast
    from Cons.IH [of ?f' ?s'] obtain e3 where
      "trace (snd (bulk_loop conv env d ?f' cs ?s')) = trace ?s' @ e3" by blast
    with e2 bulk_loop_runs [OF f, of conv env d c cs s] show ?thesis
      by simp
  qed
qed

text \<open>After two consecutive failed items the rest is marked aborted and nothing is sent.\<close>

lemma bulk_loop_fail_fast:
  assumes "Suc i < length cs"
    and "\<not> res_success (fst (bulk_loop conv env d f cs s) ! i)"
    and "\<not> res_success (fst (bulk_loop conv env d f cs s) ! Suc i)"
  shows "drop (Suc (Suc i)) (fst (bulk_loop conv env d f cs s))
       = map aborted_entry (drop (Suc (Suc i)) cs)
     \<and> (snd (bulk_loop conv env d f cs s) = snd (bulk_loop conv env d f (take (Suc (Suc i)) cs) s)
        \<or> snd (bulk_loop conv env d f cs s)
            = sleep d (snd (bulk_loop conv env d f (take (Suc (Suc i)) cs) s)))"
  using assms
proof (induction i arbitrary: f cs s)
  case 0
  then obtain c1 c2 post where cs: "cs = c1 # c2 # post"
    by (cases cs; cases "tl cs") auto
  show ?case
  proof (cases "2 \<le> f")
    case True
    then show ?thesis by (simp add: bulk_loop_all_aborted cs)
  next
    case False
    then have f: "f < 2" by simp
    let ?r1 = "run_command conv env c1 s"
    let ?s1 = "sleep d (snd ?r1)"
    from "0.prems"(2) have fail1: "\<exists>e. fst ?r1 = Inl e"
      by (cases "fst ?r1") (simp_all add: cs bulk_loop_runs [OF f])
    then obtain e1 where e1: "fst ?r1 = Inl e1" by blast
    have whole: "bulk_loop conv env d f cs s =
        (entry_of c1 (fst ?r1) # fst (bulk_loop conv env d (Suc f) (c2 # post) ?s1),
         snd (bulk_loop conv env d (Suc f) (c2 # post) ?s1))"
      using bulk_loop_runs [OF f, of conv env d c1 "c2 # post" s] e1 by (simp add: cs)
    have cut: "bulk_loop conv env d f [c1, c2] s =
        (entry_of c1 (fst ?r1) # fst (bulk_loop conv env d (Suc f) [c2] ?s1),
         snd (bulk_loop conv env d (Suc f) [c2] ?s1))"
      using bulk_loop_runs [OF f, of conv env d c1 "[c2]" s] e1 by simp
    show ?thesis
    proof (cases "f = 1")
      case True
      then have "2 \<le> Suc f" by simp
      then show ?thesis
        using whole cut by (simp add: bulk_loop_all_aborted cs)
    next
      case False
      with f have f1: "Suc f < 2" by simp
      let ?r2 = "run_command conv env c2 ?s1"
      from "0.prems"(3) have "\<exists>e. fst ?r2 = Inl e"
        by (cases "fst ?r2") (simp_all add: whole bulk_loop_runs [OF f1])
      then obtain e2 where e2: "fst ?r2 = Inl e2" by blast
      have two: "2 \<le> Suc (Suc f)" by simp
      have w2: "bulk_loop conv env d (Suc f) (c2 # post) ?s1 =
          (entry_of c2 (fst ?r2) # map aborted_entry post,
           (if post \<noteq> [] then sleep d (snd ?r2) else snd ?r2))"
        using bulk_loop_runs [OF f1, of conv env d c2 post ?s1] e2
        by (simp add: bulk_loop_all_aborted [OF two])
      have c2: "bulk_loop conv env d (Suc f) [c2] ?s1 = ([entry_of c2 (fst ?r2)], snd ?r2)"
        using bulk_loop_runs [OF f1, of conv env d c2 "[]" ?s1] by simp
      show ?thesis
        using whole cut w2 c2 by (simp add: cs)
    qed
  qed
next
  case (Suc i)
  then obtain c rest where cs: "cs = c # rest" and len: "Suc i < length rest"
    by (cases cs) auto
  show ?case
  proof (cases "2 \<le> f")
    case True
    then show ?thesis by (simp add: bulk_loop_all_aborted cs drop_map take_map)
  next
    case False
    then have f: "f < 2" by simp
    let ?r = "run_command conv env c s"
    let ?f' = "case fst ?r of Inr u \<Rightarrow> 0 | Inl e \<Rightarrow> Suc f"
    let ?s' = "sleep d (snd ?r)"
    from len have ne: "rest \<noteq> []" "take (Suc (Suc i)) rest \<noteq> []" by auto
    have whole: "bulk_loop conv env d f cs s =
        (entry_of c (fst ?r) # fst (bulk_loop conv env d ?f' rest ?s'),
         snd (bulk_loop conv env d ?f' rest ?s'))"
      using bulk_loop_runs [OF f, of conv env d c rest s] ne by (simp add: cs)
    have cut: "bulk_loop conv env d f (take (Suc (Suc (Suc i))) cs) s =
        (entry_of c (fst ?r) # fst (bulk_loop conv env d ?f' (take (Suc (Suc i)) rest) ?s'),
         snd (bulk_loop conv env d ?f' (take (Suc (Suc i)) rest) ?s'))"
      using bulk_loop_runs [OF f, of conv env d c "take (Suc (Suc i)) rest" s] ne
      by (simp add: cs)
    from Suc.prems(2,3) whole
    have "\<not> res_success (fst (bulk_loop conv env d ?f' rest ?s') ! i)"
      "\<not> res_success (fst (bulk_loop conv env d ?f' rest ?s') ! Suc i)"
      by simp_all
    from Suc.IH [OF len this] whole cut show ?thesis
      by (simp add: cs)
  qed
qed

lemma bulk_loop_first_runs:
  assumes "f < 2" and "cs \<noteq> []"
  shows "res_error (fst (bulk_loop conv env d f cs s) ! 0) \<noteq> Some AbortedConsecutiveFailures"
proof -
  from assms(2) obtain c rest where "cs = c # rest" by (cases cs) auto
  then show ?thesis by (simp add: bulk_loop_runs [OF assms(1)])
qed

lemma bulk_loop_from_zero:
  assumes "Suc 0 < length cs"
  shows "res_error (fst (bulk_loop conv env d 0 cs s) ! Suc 0) \<noteq> Some AbortedConsecutiveFailures"
proof -
  from assms obtain c rest where cs: "cs = c # rest" and rest: "rest \<noteq> []"
    by (cases cs) auto
  let ?r = "run_command conv env c s"
  let ?f' = "case fst ?r of Inr u \<Rightarrow> 0 | Inl e \<Rightarrow> Suc 0"
  have small: "?f' < (2::nat)"
    by (cases "fst ?r") simp_all
  have "fst (bulk_loop conv env d 0 (c # rest) s) ! Suc 0 =
      fst (bulk_loop conv env d ?f' rest (sleep d (snd ?r))) ! 0"
    using rest by (simp add: bulk_loop_runs)
  with bulk_loop_first_runs [OF small rest, of conv env d "sleep d (snd ?r)"] show ?thesis
    by (simp add: cs)
qed

text \<open>After a successful item the next two items are run, whatever came before.\<close>

lemma bulk_loop_reset:
  assumes "i < length cs" and "res_success (fst (bulk_loop conv env d f cs s) ! i)"
  shows "(Suc i < length cs \<longrightarrow>
        res_error (fst (bulk_loop conv env d f cs s) ! Suc i) \<noteq> Some AbortedConsecutiveFailures)
     \<and> (Suc (Suc i) < length cs \<longrightarrow>
        res_error (fst (bulk_loop conv env d f cs s) ! Suc (Suc i))
          \<noteq> Some AbortedConsecutiveFailures)"
  using assms
proof (induction i arbitrary: f cs s)
  case 0
  then obtain c rest where cs: "cs = c # rest" by (cases cs) auto
  show ?case
  proof (cases "2 \<le> f")
    case True
    with "0.prems"(2) show ?thesis by (simp add: bulk_loop_all_aborted cs)
  next
    case False
    then have f: "f < 2" by simp
    let ?r = "run_command conv env c s"
    from "0.prems"(2) obtain u where ok: "fst ?r = Inr u"
      by (cases "fst ?r") (simp_all add: cs bulk_loop_runs [OF f])
    let ?s' = "if rest \<noteq> [] then sleep d (snd ?r) else snd ?r"
    have whole: "fst (bulk_loop conv env d f (c # rest) s) =
        entry_of c (fst ?r) # fst (bulk_loop conv env d 0 rest ?s')"
      using ok by (simp add: bulk_loop_runs [OF f])
    have one: "res_error (fst (bulk_loop conv env d 0 rest ?s') ! 0)
        \<noteq> Some AbortedConsecutiveFailures" if "rest \<noteq> []"
      using that by (intro bulk_loop_first_runs) simp_all
    have two: "res_error (fst (bulk_loop conv env d 0 rest ?s') ! Suc 0)
        \<noteq> Some AbortedConsecutiveFailures" if "Suc 0 < length rest"
      using that by (rule bulk_loop_from_zero)
    from one two show ?thesis
      unfolding cs whole by auto
  qed
next
  case (Suc i)
  then obtain c rest where cs: "cs = c # rest" and len: "i < length rest"
    by (cases cs) auto
  show ?case
  proof (cases "2 \<le> f")
    case True
    with Suc.prems show ?thesis by (simp add: bulk_loop_all_aborted cs)
  next
    case False
    then have f: "f < 2" by simp
    let ?r = "run_command conv env c s"
    let ?f' = "case fst ?r of Inr u \<Rightarrow> 0 | Inl e \<Rightarrow> Suc f"
    let ?s' = "if rest \<noteq> [] then sleep d (snd ?r) else snd ?r"
    have whole: "fst (bulk_loop conv env d f (c # rest) s) =
        entry_of c (fst ?r) # fst (bulk_loop conv env d ?f' rest ?s')"
      by (simp add: bulk_loop_runs [OF f])
    from Suc.prems(2) have "res_success (fst (bulk_loop conv env d ?f' rest ?s') ! i)"
      unfolding cs whole by simp
    from Suc.IH [OF len this] show ?thesis
      unfolding cs whole by simp
  qed
qed

text \<open>An item that was run, and is not the last, is followed at once by the pause.\<close>

lemma bulk_loop_pause:
  assumes "Suc i < length cs"
    and "res_error (fst (bulk_loop conv env d f cs s) ! i) \<noteq> Some AbortedConsecutiveFailures"
  shows "\<exists>evs. trace (snd (bulk_loop conv env d f cs s)) =
     trace (snd (bulk_loop conv env d f (take (Suc i) cs) s)) @ SetTimeout d # evs"
  using assms
proof (induction i arbitrary: f cs s)
  case 0
  then obtain c rest where cs: "cs = c # rest" and rest: "rest \<noteq> []"
    by (cases cs) auto
  show ?case
  proof (cases "2 \<le> f")
    case True
    with "0.prems"(2) show ?thesis by (simp add: bulk_loop_all_aborted cs)
  next
    case False
    then have f: "f < 2" by simp
    let ?r = "run_command conv env c s"
    let ?f' = "case fst ?r of Inr u \<Rightarrow> 0 | Inl e \<Rightarrow> Suc f"
    from bulk_loop_trace_extends [of conv env d ?f' rest "sleep d (snd ?r)"] obtain evs where
      "trace (snd (bulk_loop conv env d ?f' rest (sleep d (snd ?r))))
         = trace (snd ?r) @ SetTimeout d # evs"
      by auto
    with rest show ?thesis
      by (simp add: cs bulk_loop_runs [OF f])
  qed
next
  case (Suc i)
  then obtain c rest where cs: "cs = c # rest" and len: "Suc i < length rest"
    by (cases cs) auto
  show ?case
  proof (cases "2 \<le> f")
    case True
    with Suc.prems show ?thesis by (simp add: bulk_loop_all_aborted cs)
  next
    case False
    then have f: "f < 2" by simp
    let ?r = "run_command conv env c s"
    let ?f' = "case fst ?r of Inr u \<Rightarrow> 0 | Inl e \<Rightarrow> Suc f"
    let ?s' = "sleep d (snd ?r)"
    from len have ne: "rest \<noteq> []" "take (Suc i) rest \<noteq> []" by auto
    have whole: "bulk_loop conv env d f cs s =
        (entry_of c (fst ?r) # fst (bulk_loop conv env d ?f' rest ?s'),
         snd (bulk_loop conv env d ?f' rest ?s'))"
      using ne by (simp add: cs bulk_loop_runs [OF f])
    have cut: "snd (bulk_loop conv env d f (take (Suc (Suc i)) cs) s) =
        snd (bulk_loop conv env d ?f' (take (Suc i) rest) ?s')"
      using ne by (simp add: cs bulk_loop_runs [OF f])
    from Suc.prems(2) have
      "res_error (fst (bulk_loop conv env d ?f' rest ?s') ! i) \<noteq> Some AbortedConsecutiveFailures"
      by (simp add: whole)
    from Suc.IH [OF len this] show ?thesis
      by (simp add: whole cut)
  qed
qed

lemma sendBulkCommands_available:
  "available s \<Longrightarrow>
     sendBulkCommands conv env cs delayBetween s = bulk_loop conv env (max 150 delayBetween) 0 cs s"
  by (cases cs) (simp_all add: sendBulkCommands_def)

lemma sendBulkCommands_not_available:
  "\<not> available s \<Longrightarrow> sendBulkCommands conv env cs delayBetween s = (map unavailable_entry cs, s)"
  by (simp add: sendBulkCommands_def)

lemma unavailable_entry_fields [simp]:
  "res_dp (unavailable_entry c) = cdp c"
  "res_error (unavailable_entry c) = Some DeviceUnavailable"
  "res_success (unavailable_entry c) = False"
  by (simp_all add: unavailable_entry_def)

text \<open>The entries of a batch cut short are the first entries of the whole batch.\<close>

lemma bulk_loop_take:
  "fst (bulk_loop conv env d f (take n cs) s) = take n (fst (bulk_loop conv env d f cs s))"
proof (induction cs arbitrary: n f s)
  case Nil
  show ?case by simp
next
  case (Cons c rest)
  show ?case
  proof (cases n)
    case 0
    then show ?thesis by simp
  next
    case (Suc n')
    show ?thesis
    proof (cases "2 \<le> f")
      case True
      then show ?thesis by (simp add: Suc bulk_loop_all_aborted take_map)
    next
      case False
      then have f: "f < 2" by simp
      let ?r = "run_command conv env c s"
      let ?f' = "case fst ?r of Inr u \<Rightarrow> 0 | Inl e \<Rightarrow> Suc f"
      show ?thesis
      proof (cases "take n' rest = []")
        case True
        define R' where "R' = fst (bulk_loop conv env d ?f' rest
            (if rest \<noteq> [] then sleep d (snd ?r) else snd ?r))"
        have whole: "fst (bulk_loop conv env d f (c # rest) s) = entry_of c (fst ?r) # R'"
          by (simp add: R'_def bulk_loop_runs [OF f])
        have "length R' = length rest"
          unfolding R'_def by (rule bulk_loop_length)
        with True have short: "take n' R' = []"
          by auto
        have cut: "take n (c # rest) = [c]"
          using True by (simp add: Suc)
        have "fst (bulk_loop conv env d f [c] s) = [entry_of c (fst ?r)]"
          by (simp add: bulk_loop_runs [OF f])
        with short show ?thesis
          unfolding cut whole by (simp add: Suc)
      next
        case False
        then have "rest \<noteq> []" by auto
        with False Cons.IH [where n = n' and f = ?f' and s = "sleep d (snd ?r)"] show ?thesis
          by (simp add: Suc bulk_loop_runs [OF f])
      qed
    qed
  qed
qed

text \<open>
  A command that is not aborted is run, in the state the batch cut before it has left,
  after the pause; and the batch cut after it ends in the state the command leaves.
\<close>

lemma bulk_loop_entry:
  assumes "i < length cs"
    and "res_error (fst (bulk_loop conv env d f cs s) ! i) \<noteq> Some AbortedConsecutiveFailures"
  shows "fst (bulk_loop conv env d f cs s) ! i =
       entry_of (cs ! i) (fst (run_command conv env (cs ! i)
         (if i = 0 then s else sleep d (snd (bulk_loop conv env d f (take i cs) s)))))
     \<and> snd (bulk_loop conv env d f (take (Suc i) cs) s) =
       snd (run_command conv env (cs ! i)
         (if i = 0 then s else sleep d (snd (bulk_loop conv env d f (take i cs) s))))"
  using assms
proof (induction i arbitrary: f cs s)
  case 0
  then obtain c rest where cs: "cs = c # rest" by (cases cs) auto
  show ?case
  proof (cases "2 \<le> f")
    case True
    with "0.prems"(2) show ?thesis by (simp add: bulk_loop_all_aborted cs)
  next
    case False
    then have f: "f < 2" by simp
    then show ?thesis
      by (simp add: cs bulk_loop_runs [OF f])
  qed
next
  case (Suc i)
  then obtain c rest where cs: "cs = c # rest" and len: "i < length rest"
    by (cases cs) auto
  show ?case
  proof (cases "2 \<le> f")
    case True
    with Suc.prems show ?thesis by (simp add: bulk_loop_all_aborted cs)
  next
    case False
    then have f: "f < 2" by simp
    let ?r = "run_command conv env c s"
    let ?f' = "case fst ?r of Inr u \<Rightarrow> 0 | Inl e \<Rightarrow> Suc f"
    let ?s' = "sleep d (snd ?r)"
    from len have ne: "rest \<noteq> []" "take (Suc i) rest \<noteq> []" by auto
    have whole: "fst (bulk_loop conv env d f cs s) =
        entry_of c (fst ?r) # fst (bulk_loop conv env d ?f' rest ?s')"
      using ne by (simp add: cs bulk_loop_runs [OF f])
    from Suc.prems(2) have run: "res_error (fst (bulk_loop conv env d ?f' rest ?s') ! i)
        \<noteq> Some AbortedConsecutiveFailures"
      by (simp add: whole)
    have before: "sleep d (snd (bulk_loop conv env d f (take (Suc i) cs) s)) =
        (if i = 0 then ?s' else sleep d (snd (bulk_loop conv env d ?f' (take i rest) ?s')))"
    proof (cases i)
      case 0
      then show ?thesis by (simp add: cs bulk_loop_runs [OF f])
    next
      case (Suc i')
      with len have "take i rest \<noteq> []" by auto
      then show ?thesis
        using Suc by (simp add: cs bulk_loop_runs [OF f])
    qed
    have after: "snd (bulk_loop conv env d f (take (Suc (Suc i)) cs) s) =
        snd (bulk_loop conv env d ?f' (take (Suc i) rest) ?s')"
      using ne by (simp add: cs bulk_loop_runs [OF f])
    have nth: "fst (bulk_loop conv env d f cs s) ! Suc i
        = fst (bulk_loop conv env d ?f' rest ?s') ! i"
      by (simp add: whole)
    have nth': "cs ! Suc i = rest ! i"
      by (simp add: cs)
    from Suc.IH [OF len run] show ?thesis
      unfolding nth nth' before after by simp
  qed
qed

text \<open>An aborted entry follows two failed entries.\<close>

lemma bulk_loop_aborted_after:
  assumes "i < length cs"
    and "res_error (fst (bulk_loop conv env d f cs s) ! i) = Some AbortedConsecutiveFailures"
  shows "2 \<le> i + f
     \<and> (1 \<le> i \<longrightarrow> \<not> res_success (fst (bulk_loop conv env d f cs s) ! (i - 1)))
     \<and> (2 \<le> i \<longrightarrow> \<not> res_success (fst (bulk_loop conv env d f cs s) ! (i - 2)))"
  using assms
proof (induction i arbitrary: f cs s)
  case 0
  then obtain c rest where cs: "cs = c # rest" by (cases cs) auto
  show ?case
  proof (cases "2 \<le> f")
    case True
    then show ?thesis by simp
  next
    case False
    then have f: "f < 2" by simp
    with "0.prems"(2) show ?thesis
      by (simp add: cs bulk_loop_runs [OF f])
  qed
next
  case (Suc i)
  then obtain c rest where cs: "cs = c # rest" and len: "i < length rest"
    by (cases cs) auto
  show ?case
  proof (cases "2 \<le> f")
    case True
    have R: "fst (bulk_loop conv env d f cs s) = map aborted_entry cs"
      using True by (simp add: bulk_loop_all_aborted)
    have failed: "\<not> res_success (map aborted_entry cs ! j)" if "j < length cs" for j
      using that by simp
    from len have "Suc i - 1 < length cs" "Suc i - 2 < length cs"
      by (simp_all add: cs)
    with failed True show ?thesis
      unfolding R by simp
  next
    case False
    then have f: "f < 2" by simp
    let ?r = "run_command conv env c s"
    let ?f' = "case fst ?r of Inr u \<Rightarrow> 0 | Inl e \<Rightarrow> Suc f"
    let ?s' = "if rest \<noteq> [] then sleep d (snd ?r) else snd ?r"
    let ?R' = "fst (bulk_loop conv env d ?f' rest ?s')"
    have whole: "fst (bulk_loop conv env d f cs s) = entry_of c (fst ?r) # ?R'"
      by (simp add: cs bulk_loop_runs [OF f])
    from Suc.prems(2) have ab: "res_error (?R' ! i) = Some AbortedConsecutiveFailures"
      by (simp add: whole)
    from Suc.IH [OF len ab] have
      sum: "2 \<le> i + ?f'"
      and one: "1 \<le> i \<longrightarrow> \<not> res_success (?R' ! (i - 1))"
      and two: "2 \<le> i \<longrightarrow> \<not> res_success (?R' ! (i - 2))"
      by simp_all
    have f'_le: "?f' \<le> Suc f"
      by (cases "fst ?r") simp_all
    have first_failed: "\<not> res_success (entry_of c (fst ?r))" if "0 < ?f'"
      using that by (cases "fst ?r") simp_all
    have prev: "\<not> res_success ((entry_of c (fst ?r) # ?R') ! i)"
    proof (cases i)
      case 0
      with sum have "0 < ?f'" by simp
      with 0 show ?thesis by (simp add: first_failed)
    next
      case (Suc i')
      with one show ?thesis by simp
    qed
    have prev2: "\<not> res_success ((entry_of c (fst ?r) # ?R') ! (i - 1))" if "1 \<le> i"
    proof (cases "i - 1")
      case 0
      with that have "i = 1" by simp
      with sum have "0 < ?f'" by simp
      with 0 show ?thesis by (simp add: first_failed)
    next
      case (Suc i')
      then have "2 \<le> i" "i - 1 = Suc (i - 2)" by simp_all
      with two show ?thesis by simp
    qed
    from sum f'_le have "2 \<le> Suc i + f" by simp
    with prev prev2 show ?thesis
      by (simp add: whole)
  qed
qed


text \<open>What running one command is: the write method of its type, with 2 retries and 200 ms.\<close>

lemma run_command_sends:
  "run_command conv env \<lparr>ctype = ''bool'', cdp = dp, cvalue = JBool b\<rparr> s =
     sendTuyaDatapoint env dp 1 [if b then 1 else 0] 2 200 s"
  "0 \<le> n \<and> n \<le> 255 \<Longrightarrow>
     run_command conv env \<lparr>ctype = ''enum'', cdp = dp, cvalue = JNum n\<rparr> s =
       sendTuyaDatapoint env dp 4 [word_of_int n] 2 200 s"
  "0 \<le> n \<and> n \<le> 4294967295 \<Longrightarrow>
     run_command conv env \<lparr>ctype = ''data32'', cdp = dp, cvalue = JNum n\<rparr> s =
       sendTuyaDatapoint env dp 2 (writeUInt32BE n) 2 200 s"
  "run_command conv env \<lparr>ctype = ''string'', cdp = dp, cvalue = v\<rparr> s =
     sendTuyaDatapoint env dp 3 (latin1 (js_String conv v)) 2 200 s"
  "run_command conv env \<lparr>ctype = ''raw'', cdp = dp, cvalue = JBuf buf\<rparr> s =
     sendTuyaDatapoint env dp 0 buf 2 200 s"
  by (simp_all add: run_command_def write_methods)

lemma run_command_rejects:
  "(\<forall>b. v \<noteq> JBool b) \<Longrightarrow>
     run_command conv env \<lparr>ctype = ''bool'', cdp = dp, cvalue = v\<rparr> s
       = (Inl WriteBoolExpectedBoolean, s)"
  "(\<forall>n. v = JNum n \<longrightarrow> n < 0 \<or> 255 < n) \<Longrightarrow>
     run_command conv env \<lparr>ctype = ''enum'', cdp = dp, cvalue = v\<rparr> s = (Inl InvalidEnum, s)"
  "(\<forall>n. v = JNum n \<longrightarrow> n < 0 \<or> 4294967295 < n) \<Longrightarrow>
     run_command conv env \<lparr>ctype = ''data32'', cdp = dp, cvalue = v\<rparr> s
       = (Inl InvalidUint32, s)"
  "(\<forall>buf. v \<noteq> JBuf buf) \<Longrightarrow>
     run_command conv env \<lparr>ctype = ''raw'', cdp = dp, cvalue = v\<rparr> s
       = (Inl DataMustBeBuffer, s)"
  "ty \<noteq> ''bool'' \<and> ty \<noteq> ''enum'' \<and> ty \<noteq> ''data32'' \<and> ty \<noteq> ''string'' \<and> ty \<noteq> ''raw'' \<Longrightarrow>
     run_command conv env \<lparr>ctype = ty, cdp = dp, cvalue = v\<rparr> s = (Inl (UnknownType ty), s)"
  by (simp_all add: run_command_def writeBool_rejects writeEnum_rejects writeData32_rejects
      writeRaw_rejects)

lemma sendBulkCommands_take:
  "fst (sendBulkCommands conv env (take n cs) delayBetween s)
     = take n (fst (sendBulkCommands conv env cs delayBetween s))"
proof (cases "available s")
  case True
  then show ?thesis
    by (simp add: sendBulkCommands_available bulk_loop_take)
next
  case False
  then show ?thesis
    by (simp add: sendBulkCommands_not_available take_map)
qed

lemma bulk_loop_aborted_iff:
  assumes "i < length cs"
  shows "(res_error (fst (bulk_loop conv env d 0 cs s) ! i) = Some AbortedConsecutiveFailures)
     = (2 \<le> i \<and> \<not> res_success (fst (bulk_loop conv env d 0 cs s) ! (i - 1))
          \<and> \<not> res_success (fst (bulk_loop conv env d 0 cs s) ! (i - 2)))"
proof
  assume "res_error (fst (bulk_loop conv env d 0 cs s) ! i) = Some AbortedConsecutiveFailures"
  from bulk_loop_aborted_after [OF assms this]
  show "2 \<le> i \<and> \<not> res_success (fst (bulk_loop conv env d 0 cs s) ! (i - 1))
          \<and> \<not> res_success (fst (bulk_loop conv env d 0 cs s) ! (i - 2))"
    by simp
next
  let ?R = "fst (bulk_loop conv env d 0 cs s)"
  assume h: "2 \<le> i \<and> \<not> res_success (?R ! (i - 1)) \<and> \<not> res_success (?R ! (i - 2))"
  define j where "j = i - 2"
  from h have "2 \<le> i" by simp
  then have i: "i = Suc (Suc j)" and j1: "i - 1 = Suc j"
    unfolding j_def by arith+
  from assms i have len: "Suc j < length cs" by simp
  from h have a: "\<not> res_success (?R ! (i - 1))" and b: "\<not> res_success (?R ! (i - 2))"
    by blast+
  from b have b': "\<not> res_success (?R ! j)"
    unfolding j_def .
  from a have a': "\<not> res_success (?R ! Suc j)"
    unfolding j1 .
  from bulk_loop_fail_fast [OF len b' a']
  have d: "drop (Suc (Suc j)) ?R = map aborted_entry (drop (Suc (Suc j)) cs)"
    by blast
  have "?R ! i = drop (Suc (Suc j)) ?R ! 0"
    using assms i by (simp add: bulk_loop_length)
  also have "\<dots> = aborted_entry (cs ! i)"
    unfolding d using assms i by simp
  finally show "res_error (?R ! i) = Some AbortedConsecutiveFailures"
    by simp
qed

lemma bulk_loop_aborted_entry:
  assumes "i < length cs"
    and "res_error (fst (bulk_loop conv env d f cs s) ! i) = Some AbortedConsecutiveFailures"
  shows "fst (bulk_loop conv env d f cs s) ! i = aborted_entry (cs ! i)"
  using assms
proof (induction i arbitrary: f cs s)
  case 0
  then obtain c rest where cs: "cs = c # rest" by (cases cs) auto
  show ?case
  proof (cases "2 \<le> f")
    case True
    then show ?thesis by (simp add: bulk_loop_all_aborted cs)
  next
    case False
    then have f: "f < 2" by simp
    with "0.prems"(2) show ?thesis
      by (simp add: cs bulk_loop_runs [OF f])
  qed
next
  case (Suc i)
  then obtain c rest where cs: "cs = c # rest" and len: "i < length rest"
    by (cases cs) auto
  show ?case
  proof (cases "2 \<le> f")
    case True
    with len show ?thesis by (simp add: bulk_loop_all_aborted cs)
  next
    case False
    then have f: "f < 2" by simp
    let ?r = "run_command conv env c s"
    let ?f' = "case fst ?r of Inr u \<Rightarrow> 0 | Inl e \<Rightarrow> Suc f"
    let ?s' = "if rest \<noteq> [] then sleep d (snd ?r) else snd ?r"
    have whole: "fst (bulk_loop conv env d f (c # rest) s) =
        entry_of c (fst ?r) # fst (bulk_loop conv env d ?f' rest ?s')"
      by (simp add: bulk_loop_runs [OF f])
    from Suc.prems(2) have "res_error (fst (bulk_loop conv env d ?f' rest ?s') ! i)
        = Some AbortedConsecutiveFailures"
      unfolding cs whole by simp
    from Suc.IH [OF len this] show ?thesis
      unfolding cs whole by simp
  qed
qed


text \<open>
  C8. The bulk sender returns one entry per command, in order and with the command's dp,
  each either a success or a failure with its error, and the entries of a batch cut short
  are the first entries of the whole batch. On an available device the commands are run
  one after the other. The first command is always run. A later command is aborted, that
  is marked failed without being run, exactly when the two entries before it are both
  failures; otherwise it is run, in the state in which the batch cut before it ended and
  after a wait of the delay, which is at least 150 ms, and its entry is the success or the
  error of its write. Running a command is calling the write method of its type with 2
  retries and a base delay of 200 ms, which transmits the frames of that write; a value the
  write method rejects, or an unknown type, fails without any attempt. Once two consecutive
  entries are failures, every later entry is the aborted entry and nothing more is
  attempted: the attempts made and the frames sent are those of the batch cut after the
  second failure. After a successful entry the next two commands are run, not aborted: the
  counter of consecutive failures has been reset.
\<close>

theorem sendBulkCommands_sequence:
  "map res_dp (fst (sendBulkCommands conv env commands delayBetween s)) = map cdp commands
   \<and> list_all (\<lambda>r. res_success r = (res_error r = None))
       (fst (sendBulkCommands conv env commands delayBetween s))
   \<and> fst (sendBulkCommands conv env (take n commands) delayBetween s)
       = take n (fst (sendBulkCommands conv env commands delayBetween s))
   \<and> 150 \<le> max 150 delayBetween
   \<and> (available s \<and> i < length commands \<longrightarrow>
        (res_error (fst (sendBulkCommands conv env commands delayBetween s) ! i)
           = Some AbortedConsecutiveFailures)
        = (2 \<le> i
            \<and> \<not> res_success (fst (sendBulkCommands conv env commands delayBetween s) ! (i - 1))
            \<and> \<not> res_success (fst (sendBulkCommands conv env commands delayBetween s) ! (i - 2))))
   \<and> (available s \<and> i < length commands
        \<and> res_error (fst (sendBulkCommands conv env commands delayBetween s) ! i)
             = Some AbortedConsecutiveFailures \<longrightarrow>
        fst (sendBulkCommands conv env commands delayBetween s) ! i
          = aborted_entry (commands ! i))
   \<and> (available s \<and> i < length commands
        \<and> res_error (fst (sendBulkCommands conv env commands delayBetween s) ! i)
             \<noteq> Some AbortedConsecutiveFailures \<longrightarrow>
        fst (sendBulkCommands conv env commands delayBetween s) ! i
          = entry_of (commands ! i) (fst (run_command conv env (commands ! i)
              (if i = 0 then s
               else sleep (max 150 delayBetween)
                      (snd (sendBulkCommands conv env (take i commands) delayBetween s)))))
        \<and> snd (sendBulkCommands conv env (take (Suc i) commands) delayBetween s)
          = snd (run_command conv env (commands ! i)
              (if i = 0 then s
               else sleep (max 150 delayBetween)
                      (snd (sendBulkCommands conv env (take i commands) delayBetween s)))))
   \<and> run_command conv env \<lparr>ctype = ''bool'', cdp = dp, cvalue = JBool b\<rparr> s =
       sendTuyaDatapoint env dp 1 [if b then 1 else 0] 2 200 s
   \<and> (0 \<le> v \<and> v \<le> 255 \<longrightarrow>
        run_command conv env \<lparr>ctype = ''enum'', cdp = dp, cvalue = JNum v\<rparr> s =
          sendTuyaDatapoint env dp 4 [word_of_int v] 2 200 s)
   \<and> (0 \<le> v \<and> v \<le> 4294967295 \<longrightarrow>
        run_command conv env \<lparr>ctype = ''data32'', cdp = dp, cvalue = JNum v\<rparr> s =
          sendTuyaDatapoint env dp 2 (writeUInt32BE v) 2 200 s)
   \<and> run_command conv env \<lparr>ctype = ''string'', cdp = dp, cvalue = x\<rparr> s =
       sendTuyaDatapoint env dp 3 (latin1 (js_String conv x)) 2 200 s
   \<and> run_command conv env \<lparr>ctype = ''raw'', cdp = dp, cvalue = JBuf buf\<rparr> s =
       sendTuyaDatapoint env dp 0 buf 2 200 s
   \<and> ((\<forall>b. x \<noteq> JBool b) \<longrightarrow>
        run_command conv env \<lparr>ctype = ''bool'', cdp = dp, cvalue = x\<rparr> s
          = (Inl WriteBoolExpectedBoolean, s))
   \<and> ((\<forall>n. x = JNum n \<longrightarrow> n < 0 \<or> 255 < n) \<longrightarrow>
        run_command conv env \<lparr>ctype = ''enum'', cdp = dp, cvalue = x\<rparr> s = (Inl InvalidEnum, s))
   \<and> ((\<forall>n. x = JNum n \<longrightarrow> n < 0 \<or> 4294967295 < n) \<longrightarrow>
        run_command conv env \<lparr>ctype = ''data32'', cdp = dp, cvalue = x\<rparr> s
          = (Inl InvalidUint32, s))
   \<and> ((\<forall>buf. x \<noteq> JBuf buf) \<longrightarrow>
        run_command conv env \<lparr>ctype = ''raw'', cdp = dp, cvalue = x\<rparr> s
          = (Inl DataMustBeBuffer, s))
   \<and> (ty \<noteq> ''bool'' \<and> ty \<noteq> ''enum'' \<and> ty \<noteq> ''data32'' \<and> ty \<noteq> ''string'' \<and> ty \<noteq> ''raw'' \<longrightarrow>
        run_command conv env \<lparr>ctype = ty, cdp = dp, cvalue = x\<rparr> s = (Inl (UnknownType ty), s))
   \<and> (k \<le> 2 \<and> (\<forall>j<k. env (attempts_made s + j) \<noteq> Resolves)
        \<and> env (attempts_made s + k) = Resolves \<longrightarrow>
      sendTuyaDatapoint env dp dt d 2 200 s =
        (Inr (), s\<lparr>trace := trace s @
             attempts_trace env (attempts_made s) (transactionID_counter s) dp dt d 200 k,
           transactionID_counter :=
             transactionID_counter s + transmits_before env (attempts_made s) (Suc k),
           attempts_made := attempts_made s + Suc k\<rparr>))
   \<and> ((\<forall>j\<le>2. env (attempts_made s + j) \<noteq> Resolves) \<longrightarrow>
      sendTuyaDatapoint env dp dt d 2 200 s =
        (Inl (thrown (env (attempts_made s + 2))), s\<lparr>trace := trace s @
             attempts_trace env (attempts_made s) (transactionID_counter s) dp dt d 200 2,
           transactionID_counter :=
             transactionID_counter s + transmits_before env (attempts_made s) (Suc 2),
           attempts_made := attempts_made s + Suc 2\<rparr>))
   \<and> (Suc i < length commands
        \<and> (res_success (fst (sendBulkCommands conv env commands delayBetween s) ! i)
             \<or> (\<exists>e. res_error (fst (sendBulkCommands conv env commands delayBetween s) ! i)
                    = Some (Thrown e))) \<longrightarrow>
      (\<exists>evs. trace (snd (sendBulkCommands conv env commands delayBetween s)) =
         trace (snd (sendBulkCommands conv env (take (Suc i) commands) delayBetween s))
           @ SetTimeout (max 150 delayBetween) # evs))
   \<and> (Suc i < length commands
        \<and> \<not> res_success (fst (sendBulkCommands conv env commands delayBetween s) ! i)
        \<and> \<not> res_success (fst (sendBulkCommands conv env commands delayBetween s) ! Suc i) \<longrightarrow>
      list_all (\<lambda>r. \<not> res_success r)
        (drop (Suc (Suc i)) (fst (sendBulkCommands conv env commands delayBetween s)))
      \<and> (available s \<longrightarrow>
          drop (Suc (Suc i)) (fst (sendBulkCommands conv env commands delayBetween s))
            = map aborted_entry (drop (Suc (Suc i)) commands))
      \<and> attempts_made (snd (sendBulkCommands conv env commands delayBetween s))
        = attempts_made
            (snd (sendBulkCommands conv env (take (Suc (Suc i)) commands) delayBetween s))
      \<and> filter is_Datapoint (trace (snd (sendBulkCommands conv env commands delayBetween s)))
        = filter is_Datapoint (trace
            (snd (sendBulkCommands conv env (take (Suc (Suc i)) commands) delayBetween s))))
   \<and> (i < length commands
        \<and> res_success (fst (sendBulkCommands conv env commands delayBetween s) ! i) \<longrightarrow>
      (Suc i < length commands \<longrightarrow>
         res_error (fst (sendBulkCommands conv env commands delayBetween s) ! Suc i)
           \<noteq> Some AbortedConsecutiveFailures)
      \<and> (Suc (Suc i) < length commands \<longrightarrow>
         res_error (fst (sendBulkCommands conv env commands delayBetween s) ! Suc (Suc i))
           \<noteq> Some AbortedConsecutiveFailures))"
proof -
  let ?d = "max 150 delayBetween"
  have prefix: "fst (sendBulkCommands conv env (take n commands) delayBetween s)
       = take n (fst (sendBulkCommands conv env commands delayBetween s))"
    by (rule sendBulkCommands_take)
  have floor: "150 \<le> ?d" by simp
  have crit: "available s \<and> i < length commands \<longrightarrow>
        (res_error (fst (sendBulkCommands conv env commands delayBetween s) ! i)
           = Some AbortedConsecutiveFailures)
        = (2 \<le> i
            \<and> \<not> res_success (fst (sendBulkCommands conv env commands delayBetween s) ! (i - 1))
            \<and> \<not> res_success (fst (sendBulkCommands conv env commands delayBetween s) ! (i - 2)))"
    using bulk_loop_aborted_iff [of i commands conv env ?d s]
    by (auto simp add: sendBulkCommands_available)
  have ab: "available s \<and> i < length commands
        \<and> res_error (fst (sendBulkCommands conv env commands delayBetween s) ! i)
             = Some AbortedConsecutiveFailures \<longrightarrow>
        fst (sendBulkCommands conv env commands delayBetween s) ! i
          = aborted_entry (commands ! i)"
    using bulk_loop_aborted_entry [of i commands conv env ?d 0 s]
    by (auto simp add: sendBulkCommands_available)
  have ran: "available s \<and> i < length commands
        \<and> res_error (fst (sendBulkCommands conv env commands delayBetween s) ! i)
             \<noteq> Some AbortedConsecutiveFailures \<longrightarrow>
        fst (sendBulkCommands conv env commands delayBetween s) ! i
          = entry_of (commands ! i) (fst (run_command conv env (commands ! i)
              (if i = 0 then s
               else sleep ?d
                      (snd (sendBulkCommands conv env (take i commands) delayBetween s)))))
        \<and> snd (sendBulkCommands conv env (take (Suc i) commands) delayBetween s)
          = snd (run_command conv env (commands ! i)
              (if i = 0 then s
               else sleep ?d
                      (snd (sendBulkCommands conv env (take i commands) delayBetween s))))"
  proof (intro impI)
    assume h: "available s \<and> i < length commands
        \<and> res_error (fst (sendBulkCommands conv env commands delayBetween s) ! i)
             \<noteq> Some AbortedConsecutiveFailures"
    then have av: "available s" by simp
    note unfold = sendBulkCommands_available [OF av]
    from h bulk_loop_entry [of i commands conv env ?d 0 s]
    show "fst (sendBulkCommands conv env commands delayBetween s) ! i
          = entry_of (commands ! i) (fst (run_command conv env (commands ! i)
              (if i = 0 then s
               else sleep ?d
                      (snd (sendBulkCommands conv env (take i commands) delayBetween s)))))
        \<and> snd (sendBulkCommands conv env (take (Suc i) commands) delayBetween s)
          = snd (run_command conv env (commands ! i)
              (if i = 0 then s
               else sleep ?d
                      (snd (sendBulkCommands conv env (take i commands) delayBetween s))))"
      unfolding unfold by blast
  qed
  have s1: "run_command conv env \<lparr>ctype = ''bool'', cdp = dp, cvalue = JBool b\<rparr> s =
       sendTuyaDatapoint env dp 1 [if b then 1 else 0] 2 200 s"
    by (rule run_command_sends)
  have s2: "0 \<le> v \<and> v \<le> 255 \<longrightarrow>
        run_command conv env \<lparr>ctype = ''enum'', cdp = dp, cvalue = JNum v\<rparr> s =
          sendTuyaDatapoint env dp 4 [word_of_int v] 2 200 s"
    using run_command_sends(2) by blast
  have s3: "0 \<le> v \<and> v \<le> 4294967295 \<longrightarrow>
        run_command conv env \<lparr>ctype = ''data32'', cdp = dp, cvalue = JNum v\<rparr> s =
          sendTuyaDatapoint env dp 2 (writeUInt32BE v) 2 200 s"
    using run_command_sends(3) by blast
  have s4: "run_command conv env \<lparr>ctype = ''string'', cdp = dp, cvalue = x\<rparr> s =
       sendTuyaDatapoint env dp 3 (latin1 (js_String conv x)) 2 200 s"
    by (rule run_command_sends)
  have s5: "run_command conv env \<lparr>ctype = ''raw'', cdp = dp, cvalue = JBuf buf\<rparr> s =
       sendTuyaDatapoint env dp 0 buf 2 200 s"
    by (rule run_command_sends)
  have j1: "(\<forall>b. x \<noteq> JBool b) \<longrightarrow>
        run_command conv env \<lparr>ctype = ''bool'', cdp = dp, cvalue = x\<rparr> s
          = (Inl WriteBoolExpectedBoolean, s)"
    using run_command_rejects(1) by blast
  have j2: "(\<forall>n. x = JNum n \<longrightarrow> n < 0 \<or> 255 < n) \<longrightarrow>
        run_command conv env \<lparr>ctype = ''enum'', cdp = dp, cvalue = x\<rparr> s = (Inl InvalidEnum, s)"
    using run_command_rejects(2) by blast
  have j3: "(\<forall>n. x = JNum n \<longrightarrow> n < 0 \<or> 4294967295 < n) \<longrightarrow>
        run_command conv env \<lparr>ctype = ''data32'', cdp = dp, cvalue = x\<rparr> s
          = (Inl InvalidUint32, s)"
    using run_command_rejects(3) by blast
  have j4: "(\<forall>buf. x \<noteq> JBuf buf) \<longrightarrow>
        run_command conv env \<lparr>ctype = ''raw'', cdp = dp, cvalue = x\<rparr> s
          = (Inl DataMustBeBuffer, s)"
    using run_command_rejects(4) by blast
  have j5: "ty \<noteq> ''bool'' \<and> ty \<noteq> ''enum'' \<and> ty \<noteq> ''data32'' \<and> ty \<noteq> ''string'' \<and> ty \<noteq> ''raw'' \<longrightarrow>
        run_command conv env \<lparr>ctype = ty, cdp = dp, cvalue = x\<rparr> s = (Inl (UnknownType ty), s)"
    using run_command_rejects(5) by blast
  have f1: "k \<le> 2 \<and> (\<forall>j<k. env (attempts_made s + j) \<noteq> Resolves)
        \<and> env (attempts_made s + k) = Resolves \<longrightarrow>
      sendTuyaDatapoint env dp dt d 2 200 s =
        (Inr (), s\<lparr>trace := trace s @
             attempts_trace env (attempts_made s) (transactionID_counter s) dp dt d 200 k,
           transactionID_counter :=
             transactionID_counter s + transmits_before env (attempts_made s) (Suc k),
           attempts_made := attempts_made s + Suc k\<rparr>)"
    using sendTuyaDatapoint_succeeds [of k 2 env s dp dt d 200] by simp
  have f2: "(\<forall>j\<le>2. env (attempts_made s + j) \<noteq> Resolves) \<longrightarrow>
      sendTuyaDatapoint env dp dt d 2 200 s =
        (Inl (thrown (env (attempts_made s + 2))), s\<lparr>trace := trace s @
             attempts_trace env (attempts_made s) (transactionID_counter s) dp dt d 200 2,
           transactionID_counter :=
             transactionID_counter s + transmits_before env (attempts_made s) (Suc 2),
           attempts_made := attempts_made s + Suc 2\<rparr>)"
    using sendTuyaDatapoint_exhausts [of 2 env s dp dt d 200] by simp
  show ?thesis
  proof (cases "available s")
    case False
    note unfold = sendBulkCommands_not_available [OF False]
    have old: "map res_dp (fst (sendBulkCommands conv env commands delayBetween s)) = map cdp commands
      \<and> list_all (\<lambda>r. res_success r = (res_error r = None))
          (fst (sendBulkCommands conv env commands delayBetween s))"
      unfolding unfold by (simp add: comp_def list_all_iff)
    have pause: "Suc i < length commands
        \<and> (res_success (fst (sendBulkCommands conv env commands delayBetween s) ! i)
             \<or> (\<exists>e. res_error (fst (sendBulkCommands conv env commands delayBetween s) ! i)
                    = Some (Thrown e))) \<longrightarrow>
      (\<exists>evs. trace (snd (sendBulkCommands conv env commands delayBetween s)) =
         trace (snd (sendBulkCommands conv env (take (Suc i) commands) delayBetween s))
           @ SetTimeout ?d # evs)"
      unfolding unfold by simp
    have fast: "Suc i < length commands
        \<and> \<not> res_success (fst (sendBulkCommands conv env commands delayBetween s) ! i)
        \<and> \<not> res_success (fst (sendBulkCommands conv env commands delayBetween s) ! Suc i) \<longrightarrow>
      list_all (\<lambda>r. \<not> res_success r)
        (drop (Suc (Suc i)) (fst (sendBulkCommands conv env commands delayBetween s)))
      \<and> (available s \<longrightarrow>
          drop (Suc (Suc i)) (fst (sendBulkCommands conv env commands delayBetween s))
            = map aborted_entry (drop (Suc (Suc i)) commands))
      \<and> attempts_made (snd (sendBulkCommands conv env commands delayBetween s))
        = attempts_made
            (snd (sendBulkCommands conv env (take (Suc (Suc i)) commands) delayBetween s))
      \<and> filter is_Datapoint (trace (snd (sendBulkCommands conv env commands delayBetween s)))
        = filter is_Datapoint (trace
            (snd (sendBulkCommands conv env (take (Suc (Suc i)) commands) delayBetween s)))"
      unfolding unfold using False
      by (auto simp add: list_all_iff dest!: in_set_dropD)
    have reset: "i < length commands
        \<and> res_success (fst (sendBulkCommands conv env commands delayBetween s) ! i) \<longrightarrow>
      (Suc i < length commands \<longrightarrow>
         res_error (fst (sendBulkCommands conv env commands delayBetween s) ! Suc i)
           \<noteq> Some AbortedConsecutiveFailures)
      \<and> (Suc (Suc i) < length commands \<longrightarrow>
         res_error (fst (sendBulkCommands conv env commands delayBetween s) ! Suc (Suc i))
           \<noteq> Some AbortedConsecutiveFailures)"
      unfolding unfold by simp
    from old prefix floor crit ab ran s1 s2 s3 s4 s5 j1 j2 j3 j4 j5 f1 f2 pause fast reset
    show ?thesis
      by (intro conjI) blast+
  next
    case True
    let ?R = "fst (bulk_loop conv env ?d 0 commands s)"
    let ?S = "snd (bulk_loop conv env ?d 0 commands s)"
    note unfold = sendBulkCommands_available [OF True]
    have dps: "map res_dp (fst (sendBulkCommands conv env commands delayBetween s)) = map cdp commands"
      unfolding unfold by (rule bulk_loop_dps)
    have ent: "list_all (\<lambda>r. res_success r = (res_error r = None)) ?R"
      by (rule bulk_loop_entries)
    have ent': "list_all (\<lambda>r. res_success r = (res_error r = None))
        (fst (sendBulkCommands conv env commands delayBetween s))"
      unfolding unfold by (rule ent)
    have pause: "\<exists>evs. trace ?S =
        trace (snd (bulk_loop conv env ?d 0 (take (Suc i) commands) s)) @ SetTimeout ?d # evs"
      if h: "Suc i < length commands
        \<and> (res_success (?R ! i) \<or> (\<exists>e. res_error (?R ! i) = Some (Thrown e)))"
    proof -
      from h have i: "i < length ?R" by (simp add: bulk_loop_length)
      with ent have "res_success (?R ! i) = (res_error (?R ! i) = None)"
        by (simp add: list_all_length)
      with h have "res_error (?R ! i) \<noteq> Some AbortedConsecutiveFailures" by auto
      with h bulk_loop_pause [of i commands conv env ?d 0 s] show ?thesis by blast
    qed
    have fast: "list_all (\<lambda>r. \<not> res_success r) (drop (Suc (Suc i)) ?R)
        \<and> drop (Suc (Suc i)) ?R = map aborted_entry (drop (Suc (Suc i)) commands)
        \<and> attempts_made ?S
            = attempts_made (snd (bulk_loop conv env ?d 0 (take (Suc (Suc i)) commands) s))
        \<and> filter is_Datapoint (trace ?S)
            = filter is_Datapoint (trace (snd (bulk_loop conv env ?d 0 (take (Suc (Suc i)) commands) s)))"
      if h: "Suc i < length commands \<and> \<not> res_success (?R ! i) \<and> \<not> res_success (?R ! Suc i)"
    proof -
      from h bulk_loop_fail_fast [of i commands conv env ?d 0 s] have
        d: "drop (Suc (Suc i)) ?R = map aborted_entry (drop (Suc (Suc i)) commands)"
        and st: "?S = snd (bulk_loop conv env ?d 0 (take (Suc (Suc i)) commands) s)
           \<or> ?S = sleep ?d (snd (bulk_loop conv env ?d 0 (take (Suc (Suc i)) commands) s))"
        by blast+
      from st have "attempts_made ?S
            = attempts_made (snd (bulk_loop conv env ?d 0 (take (Suc (Suc i)) commands) s))
        \<and> filter is_Datapoint (trace ?S)
            = filter is_Datapoint (trace (snd (bulk_loop conv env ?d 0 (take (Suc (Suc i)) commands) s)))"
        by (elim disjE) simp_all
      moreover have "list_all (\<lambda>r. \<not> res_success r) (drop (Suc (Suc i)) ?R)"
        unfolding d by (simp add: list_all_iff)
      ultimately show ?thesis using d by simp
    qed
    have reset: "(Suc i < length commands \<longrightarrow>
          res_error (?R ! Suc i) \<noteq> Some AbortedConsecutiveFailures)
        \<and> (Suc (Suc i) < length commands \<longrightarrow>
          res_error (?R ! Suc (Suc i)) \<noteq> Some AbortedConsecutiveFailures)"
      if "i < length commands \<and> res_success (?R ! i)"
      using that bulk_loop_reset [of i commands conv env ?d 0 s] by blast
    have pause': "Suc i < length commands
        \<and> (res_success (fst (sendBulkCommands conv env commands delayBetween s) ! i)
             \<or> (\<exists>e. res_error (fst (sendBulkCommands conv env commands delayBetween s) ! i)
                    = Some (Thrown e))) \<longrightarrow>
      (\<exists>evs. trace (snd (sendBulkCommands conv env commands delayBetween s)) =
         trace (snd (sendBulkCommands conv env (take (Suc i) commands) delayBetween s))
           @ SetTimeout ?d # evs)"
      unfolding unfold using pause by blast
    have fast': "Suc i < length commands
        \<and> \<not> res_success (fst (sendBulkCommands conv env commands delayBetween s) ! i)
        \<and> \<not> res_success (fst (sendBulkCommands conv env commands delayBetween s) ! Suc i) \<longrightarrow>
      list_all (\<lambda>r. \<not> res_success r)
        (drop (Suc (Suc i)) (fst (sendBulkCommands conv env commands delayBetween s)))
      \<and> (available s \<longrightarrow>
          drop (Suc (Suc i)) (fst (sendBulkCommands conv env commands delayBetween s))
            = map aborted_entry (drop (Suc (Suc i)) commands))
      \<and> attempts_made (snd (sendBulkCommands conv env commands delayBetween s))
        = attempts_made
            (snd (sendBulkCommands conv env (take (Suc (Suc i)) commands) delayBetween s))
      \<and> filter is_Datapoint (trace (snd (sendBulkCommands conv env commands delayBetween s)))
        = filter is_Datapoint (trace
            (snd (sendBulkCommands conv env (take (Suc (Suc i)) commands) delayBetween s)))"
      unfolding unfold using fast by blast
    have reset': "i < length commands
        \<and> res_success (fst (sendBulkCommands conv env commands delayBetween s) ! i) \<longrightarrow>
      (Suc i < length commands \<longrightarrow>
         res_error (fst (sendBulkCommands conv env commands delayBetween s) ! Suc i)
           \<noteq> Some AbortedConsecutiveFailures)
      \<and> (Suc (Suc i) < length commands \<longrightarrow>
         res_error (fst (sendBulkCommands conv env commands delayBetween s) ! Suc (Suc i))
           \<noteq> Some AbortedConsecutiveFailures)"
      unfolding unfold using reset by blast
    from dps ent' prefix floor crit ab ran s1 s2 s3 s4 s5 j1 j2 j3 j4 j5 f1 f2 pause' fast' reset'
    show ?thesis
      by (intro conjI)
  qed
qed


text \<open>
  The sample batch on a fresh device, with 100 ms asked between commands. The first
  command succeeds with one frame, the three attempts of the second all fail, the third is
  rejected before sending, and the fourth is aborted unattempted, because the second and
  the third entry are failures.
\<close>

theorem sendBulkCommands_sequence_witness:
  "available fresh_device
   \<and> sendBulkCommands no_conversion (scripted [Resolves, Rejects 1, Rejects 2, Rejects 3] Resolves)
        sample_batch 100 fresh_device
       = ([\<lparr>res_success = True, res_dp = 1, res_error = None\<rparr>,
           \<lparr>res_success = False, res_dp = 2, res_error = Some (Thrown (TransportError 3))\<rparr>,
           \<lparr>res_success = False, res_dp = 3, res_error = Some (Thrown InvalidEnum)\<rparr>,
           \<lparr>res_success = False, res_dp = 4, res_error = Some AbortedConsecutiveFailures\<rparr>],
          \<lparr>transactionID_counter = 4, attempts_made = 4,
           trace = [Datapoint 0 0 1 1 1 [1], SetTimeout 150,
                    Datapoint 0 1 2 2 4 [0, 0, 1, 44], SetTimeout 200,
                    Datapoint 0 2 2 2 4 [0, 0, 1, 44], SetTimeout 400,
                    Datapoint 0 3 2 2 4 [0, 0, 1, 44], SetTimeout 150, SetTimeout 150],
           available = True\<rparr>)
   \<and> fst (sendBulkCommands no_conversion
        (scripted [Resolves, Rejects 1, Rejects 2, Rejects 3] Resolves) sample_batch 100
        fresh_device) ! 0
       = entry_of (sample_batch ! 0) (fst (run_command no_conversion
           (scripted [Resolves, Rejects 1, Rejects 2, Rejects 3] Resolves) (sample_batch ! 0)
           fresh_device))
   \<and> run_command no_conversion (scripted [Resolves, Rejects 1, Rejects 2, Rejects 3] Resolves)
        \<lparr>ctype = ''bool'', cdp = 1, cvalue = JBool True\<rparr> fresh_device
       = (Inr (), \<lparr>transactionID_counter = 1, attempts_made = 1,
            trace = [Datapoint 0 0 1 1 1 [1]], available = True\<rparr>)
   \<and> res_error (fst (sendBulkCommands no_conversion
        (scripted [Resolves, Rejects 1, Rejects 2, Rejects 3] Resolves) sample_batch 100
        fresh_device) ! 3) = Some AbortedConsecutiveFailures
   \<and> drop 3 (fst (sendBulkCommands no_conversion
        (scripted [Resolves, Rejects 1, Rejects 2, Rejects 3] Resolves) sample_batch 100
        fresh_device))
       = map aborted_entry (drop 3 sample_batch)
   \<and> attempts_made (snd (sendBulkCommands no_conversion
        (scripted [Resolves, Rejects 1, Rejects 2, Rejects 3] Resolves) sample_batch 100
        fresh_device))
       = attempts_made (snd (sendBulkCommands no_conversion
        (scripted [Resolves, Rejects 1, Rejects 2, Rejects 3] Resolves) (take 3 sample_batch) 100
        fresh_device))
   \<and> res_error (fst (sendBulkCommands no_conversion
        (scripted [Resolves, Rejects 1, Rejects 2, Rejects 3] Resolves) sample_batch 100
        fresh_device) ! Suc 0) \<noteq> Some AbortedConsecutiveFailures
   \<and> res_error (fst (sendBulkCommands no_conversion
        (scripted [Resolves, Rejects 1, Rejects 2, Rejects 3] Resolves) sample_batch 100
        fresh_device) ! Suc (Suc 0)) \<noteq> Some AbortedConsecutiveFailures"
proof -
  let ?env = "scripted [Resolves, Rejects 1, Rejects 2, Rejects 3] Resolves"
  let ?run = "sendBulkCommands no_conversion ?env sample_batch 100 fresh_device"
  have av: "available fresh_device"
    by (simp add: fresh_device_def)
  have run: "?run =
      ([\<lparr>res_success = True, res_dp = 1, res_error = None\<rparr>,
        \<lparr>res_success = False, res_dp = 2, res_error = Some (Thrown (TransportError 3))\<rparr>,
        \<lparr>res_success = False, res_dp = 3, res_error = Some (Thrown InvalidEnum)\<rparr>,
        \<lparr>res_success = False, res_dp = 4, res_error = Some AbortedConsecutiveFailures\<rparr>],
       \<lparr>transactionID_counter = 4, attempts_made = 4,
        trace = [Datapoint 0 0 1 1 1 [1], SetTimeout 150,
                 Datapoint 0 1 2 2 4 [0, 0, 1, 44], SetTimeout 200,
                 Datapoint 0 2 2 2 4 [0, 0, 1, 44], SetTimeout 400,
                 Datapoint 0 3 2 2 4 [0, 0, 1, 44], SetTimeout 150, SetTimeout 150],
        available = True\<rparr>)"
    by (simp add: sendBulkCommands_def sample_batch_def fresh_device_def bulk_loop.simps
        run_command_def writeBool_def writeData32_def writeEnum_def send_payload_def
        writeBool_payload_def writeData32_payload_def writeEnum_payload_def writeUInt32BE_def
        sendTuyaDatapoint_def sendTuyaDatapoint_loop.simps scripted_def transmit_def
        backoff_def sleep_def entry_of_def aborted_entry_def)
  have len: "length sample_batch = 4"
    by (simp add: sample_batch_def)
  have first: "sample_batch ! 0 = \<lparr>ctype = ''bool'', cdp = 1, cvalue = JBool True\<rparr>"
    by (simp add: sample_batch_def)
  have fresh: "attempts_made fresh_device = 0" "transactionID_counter fresh_device = 0"
    "trace fresh_device = []"
    by (simp_all add: fresh_device_def)
  note thm0 = sendBulkCommands_sequence [where i = 0 and commands = sample_batch
      and conv = no_conversion and env = ?env and delayBetween = 100 and s = fresh_device
      and dp = 1 and b = True and k = 0 and dt = 1 and d = "[1]"]
  have hyp_run0: "available fresh_device \<and> 0 < length sample_batch
      \<and> res_error (fst ?run ! 0) \<noteq> Some AbortedConsecutiveFailures"
    unfolding run by (simp add: len av)
  from thm0 hyp_run0
  have e0: "fst ?run ! 0 = entry_of (sample_batch ! 0)
      (fst (run_command no_conversion ?env (sample_batch ! 0) fresh_device))"
    by simp
  have hyp_k0: "(0::nat) \<le> 2 \<and> (\<forall>j<0. ?env (attempts_made fresh_device + j) \<noteq> Resolves)
      \<and> ?env (attempts_made fresh_device + 0) = Resolves"
    by (simp add: fresh scripted_def)
  from thm0 hyp_k0
  have "run_command no_conversion ?env \<lparr>ctype = ''bool'', cdp = 1, cvalue = JBool True\<rparr>
        fresh_device
      = (Inr (), fresh_device\<lparr>trace := trace fresh_device @
             attempts_trace ?env (attempts_made fresh_device)
               (transactionID_counter fresh_device) 1 1 [1] 200 0,
           transactionID_counter := transactionID_counter fresh_device
             + transmits_before ?env (attempts_made fresh_device) (Suc 0),
           attempts_made := attempts_made fresh_device + Suc 0\<rparr>)"
    by simp
  then have r0: "run_command no_conversion ?env \<lparr>ctype = ''bool'', cdp = 1, cvalue = JBool True\<rparr>
        fresh_device
      = (Inr (), \<lparr>transactionID_counter = 1, attempts_made = 1,
            trace = [Datapoint 0 0 1 1 1 [1]], available = True\<rparr>)"
    unfolding fresh
    by (simp add: attempts_trace_def attempt_event_def transmits_before_def scripted_def
        fresh_device_def)
  have hyp3: "available fresh_device \<and> 3 < length sample_batch"
    by (simp add: len av)
  have failed: "2 \<le> (3::nat) \<and> \<not> res_success (fst ?run ! (3 - 1))
      \<and> \<not> res_success (fst ?run ! (3 - 2))"
    unfolding run by simp
  from sendBulkCommands_sequence [where i = 3 and commands = sample_batch
      and conv = no_conversion and env = ?env and delayBetween = 100 and s = fresh_device]
    hyp3 failed
  have a3: "res_error (fst ?run ! 3) = Some AbortedConsecutiveFailures"
    by blast
  have hyp: "Suc 1 < length sample_batch
      \<and> \<not> res_success (fst ?run ! 1) \<and> \<not> res_success (fst ?run ! Suc 1)"
    unfolding run by (simp add: len)
  from sendBulkCommands_sequence [where i = 1 and commands = sample_batch
      and conv = no_conversion and env = ?env and delayBetween = 100 and s = fresh_device] hyp av
  have "drop (Suc (Suc 1)) (fst ?run) = map aborted_entry (drop (Suc (Suc 1)) sample_batch)
      \<and> attempts_made (snd ?run) = attempts_made (snd (sendBulkCommands no_conversion ?env
            (take (Suc (Suc 1)) sample_batch) 100 fresh_device))"
    by blast
  then have cut: "drop 3 (fst ?run) = map aborted_entry (drop 3 sample_batch)
      \<and> attempts_made (snd ?run) = attempts_made (snd (sendBulkCommands no_conversion ?env
            (take 3 sample_batch) 100 fresh_device))"
    by (simp add: numeral_3_eq_3)
  have hyp0: "0 < length sample_batch \<and> res_success (fst ?run ! 0)"
    unfolding run by (simp add: len)
  from thm0 hyp0 len
  have reset: "res_error (fst ?run ! Suc 0) \<noteq> Some AbortedConsecutiveFailures
      \<and> res_error (fst ?run ! Suc (Suc 0)) \<noteq> Some AbortedConsecutiveFailures"
    by simp
  from cut have cut1: "drop 3 (fst ?run) = map aborted_entry (drop 3 sample_batch)"
    and cut2: "attempts_made (snd ?run) = attempts_made (snd (sendBulkCommands no_conversion ?env
            (take 3 sample_batch) 100 fresh_device))"
    by simp_all
  from reset have r1: "res_error (fst ?run ! Suc 0) \<noteq> Some AbortedConsecutiveFailures"
    and r2: "res_error (fst ?run ! Suc (Suc 0)) \<noteq> Some AbortedConsecutiveFailures"
    by simp_all
  show ?thesis
    by (intro conjI) (rule av run e0 r0 a3 cut1 cut2 r1 r2)+
qed

end
